theory Spec2Isabelle
  imports Main
begin

section \<open>JavaScript values and string primitives\<close>

text \<open>
  Strings are lists of 8-bit characters, the code units 0 to 255: every character the
  patterns of the server name explicitly is ASCII, and the classes \<^verbatim>\<open>\w\<close> and
  \<^verbatim>\<open>\d\<close> are ASCII by definition. Code units above 255 are outside the model. The
  only runtime error the modelled functions can raise is the \<^verbatim>\<open>TypeError\<close> of
  reading a property of, or spreading, \<^verbatim>\<open>undefined\<close>.
\<close>

datatype js_error = TypeError

text \<open>
  A JavaScript number, a double, as far as the diagnostics need it. \<open>Num n\<close> is the
  double of the integer \<open>n\<close> and stands only for \<open>\<bar>n\<bar> \<le> 2^53\<close>: in that range every
  integer is a double, and a difference that stays in the range is exact. \<open>Inexact\<close>
  stands for any result beyond the range, which the double arithmetic rounds and the model
  does not follow; nothing is proved about it. \<open>NaN\<close> is what \<^verbatim>\<open>parseInt\<close> returns on
  a string without digits.
\<close>

datatype js_number = NaN | Num int | Inexact

definition exact :: "int \<Rightarrow> js_number" where
  "exact n = (if \<bar>n\<bar> \<le> 2 ^ 53 then Num n else Inexact)"

text \<open>\<^verbatim>\<open>x - k\<close> for an integer literal \<open>k\<close>.\<close>

fun js_minus :: "js_number \<Rightarrow> int \<Rightarrow> js_number" where
  "js_minus NaN k = NaN"
| "js_minus Inexact k = Inexact"
| "js_minus (Num n) k = (if \<bar>n\<bar> \<le> 2 ^ 53 then exact (n - k) else Inexact)"

definition LF :: char where "LF = CHR 0x0A"
definition CR :: char where "CR = CHR 0x0D"

text \<open>The character classes \<^verbatim>\<open>\d\<close>, \<^verbatim>\<open>\w\<close>, \<^verbatim>\<open>\s\<close>, \<^verbatim>\<open>[ \t]\<close>, \<^verbatim>\<open>[A-Z0-9_]\<close>
  and the complement of \<^verbatim>\<open>.\<close> (the line terminators).\<close>

definition is_digit :: "char \<Rightarrow> bool" where
  "is_digit c \<longleftrightarrow> c \<in> set ''0123456789''"

definition is_upper :: "char \<Rightarrow> bool" where
  "is_upper c \<longleftrightarrow> c \<in> set ''ABCDEFGHIJKLMNOPQRSTUVWXYZ''"

definition is_lower :: "char \<Rightarrow> bool" where
  "is_lower c \<longleftrightarrow> c \<in> set ''abcdefghijklmnopqrstuvwxyz''"

definition is_word :: "char \<Rightarrow> bool" where
  "is_word c \<longleftrightarrow> is_lower c \<or> is_upper c \<or> is_digit c \<or> c = CHR ''_''"

definition is_nonword :: "char \<Rightarrow> bool" where
  "is_nonword c \<longleftrightarrow> \<not> is_word c"

definition is_space :: "char \<Rightarrow> bool" where
  "is_space c \<longleftrightarrow> c \<in> set [CHR 0x09, CHR 0x0A, CHR 0x0B, CHR 0x0C, CHR 0x0D, CHR 0x20, CHR 0xA0]"

definition is_nonspace :: "char \<Rightarrow> bool" where
  "is_nonspace c \<longleftrightarrow> \<not> is_space c"

definition is_blank :: "char \<Rightarrow> bool" where
  "is_blank c \<longleftrightarrow> c = CHR 0x20 \<or> c = CHR 0x09"

definition is_constant_char :: "char \<Rightarrow> bool" where
  "is_constant_char c \<longleftrightarrow> is_upper c \<or> is_digit c \<or> c = CHR ''_''"

definition is_line_terminator :: "char \<Rightarrow> bool" where
  "is_line_terminator c \<longleftrightarrow> c = LF \<or> c = CR"

definition is_dot :: "char \<Rightarrow> bool" where
  "is_dot c \<longleftrightarrow> \<not> is_line_terminator c"

text \<open>\<^verbatim>\<open>s.slice(start, stop)\<close>: a negative index counts from the end, and both indices are
  clamped to the string.\<close>

definition slice_index :: "nat \<Rightarrow> int \<Rightarrow> nat" where
  "slice_index len i = (if i < 0 then nat (max (int len + i) 0) else min (nat i) len)"

definition slice :: "string \<Rightarrow> int \<Rightarrow> int \<Rightarrow> string" where
  "slice s start stop =
     (let from = slice_index (length s) start;
          to = slice_index (length s) stop
      in take (to - from) (drop from s))"

definition slice_from :: "string \<Rightarrow> int \<Rightarrow> string" where
  "slice_from s start = slice s start (int (length s))"

text \<open>\<^verbatim>\<open>text.split(/\r?\n/g)\<close>.\<close>

fun prepend :: "char \<Rightarrow> string list \<Rightarrow> string list" where
  "prepend c [] = [[c]]"
| "prepend c (l # ls) = (c # l) # ls"

fun split_lines :: "string \<Rightarrow> string list" where
  "split_lines [] = [[]]"
| "split_lines [c] = (if c = LF then [[], []] else [[c]])"
| "split_lines (c # d # cs) =
     (if c = CR \<and> d = LF then [] # split_lines cs
      else if c = LF then [] # split_lines (d # cs)
      else prepend c (split_lines (d # cs)))"

text \<open>\<^verbatim>\<open>s.search(/C+$/)\<close> for a character class \<open>C\<close>: the first index from which the
  rest of the string is a non-empty run of \<open>C\<close>, or \<open>-1\<close>.\<close>

fun search_run_end :: "(char \<Rightarrow> bool) \<Rightarrow> string \<Rightarrow> int" where
  "search_run_end C [] = - 1"
| "search_run_end C (c # cs) =
     (if list_all C (c # cs) then 0
      else (let r = search_run_end C cs in if r < 0 then - 1 else r + 1))"

text \<open>\<^verbatim>\<open>s.search(/C/)\<close>: the index of the first character of class \<open>C\<close>, or \<open>-1\<close>.\<close>

fun search_first :: "(char \<Rightarrow> bool) \<Rightarrow> string \<Rightarrow> int" where
  "search_first C [] = - 1"
| "search_first C (c # cs) =
     (if C c then 0
      else (let r = search_first C cs in if r < 0 then - 1 else r + 1))"

text \<open>\<^verbatim>\<open>s.trimEnd()\<close>, \<^verbatim>\<open>s.endsWith("\\")\<close>, \<^verbatim>\<open>parts.join(sep)\<close>.\<close>

definition trimEnd :: "string \<Rightarrow> string" where
  "trimEnd s = rev (dropWhile is_space (rev s))"

definition endsWith_backslash :: "string \<Rightarrow> bool" where
  "endsWith_backslash s \<longleftrightarrow> s \<noteq> [] \<and> last s = CHR 0x5C"

fun join :: "string \<Rightarrow> string list \<Rightarrow> string" where
  "join sep [] = []"
| "join sep [x] = x"
| "join sep (x # y # ys) = x @ sep @ join sep (y # ys)"

text \<open>\<^verbatim>\<open>parseInt\<close> on the strings that reach it in the server: captures of \<^verbatim>\<open>[\d]*\<close>
  and the literals \<^verbatim>\<open>"0"\<close> and \<^verbatim>\<open>"1"\<close>. The decimal digits at the front are read;
  without one the result is \<^verbatim>\<open>NaN\<close>. The integer read is returned as a double: up to
  \<open>2^53\<close> it is that integer, beyond it is rounded.\<close>

definition digit_val :: "char \<Rightarrow> int" where
  "digit_val c = int (of_char c) - 48"

definition digits_value :: "string \<Rightarrow> int" where
  "digits_value ds = foldl (\<lambda>acc c. 10 * acc + digit_val c) 0 ds"

definition parseInt :: "string \<Rightarrow> js_number" where
  "parseInt s =
     (let ds = takeWhile is_digit s
      in if ds = [] then NaN else exact (digits_value ds))"

section \<open>Position resolver (common.ts)\<close>

text \<open>The protocol's \<^verbatim>\<open>Position\<close>, fields \<^verbatim>\<open>line\<close> and \<^verbatim>\<open>character\<close>.\<close>

record Position =
  pos_line :: nat
  pos_character :: nat

text \<open>\<^verbatim>\<open>onlyDigits\<close>: \<^verbatim>\<open>/^\d+$/.test(value)\<close>.\<close>

definition onlyDigits :: "string \<Rightarrow> bool" where
  "onlyDigits v \<longleftrightarrow> v \<noteq> [] \<and> list_all is_digit v"

text \<open>
  \<^verbatim>\<open>symbolAtPosition\<close>. \<^verbatim>\<open>lines[position.line]\<close> is \<^verbatim>\<open>undefined\<close> beyond the last
  line, and the following \<^verbatim>\<open>str.slice\<close> raises. In the second pass only \<open>left\<close> is
  searched with \<^verbatim>\<open>\S\<close>; \<open>right\<close> is searched with \<^verbatim>\<open>\W\<close> again, as in the source.
\<close>

definition symbolAtPosition :: "string \<Rightarrow> Position \<Rightarrow> js_error + string" where
  "symbolAtPosition txt position =
     (let lines = split_lines txt in
      if \<not> pos_line position < length lines then Inl TypeError
      else
        let str = lines ! pos_line position;
            pos = int (pos_character position);
            left = search_run_end is_word (slice str 0 (pos + 1));
            right = search_first is_nonword (slice_from str pos);
            result = (if right < 0 then slice_from str left else slice str left (right + pos))
        in if \<not> onlyDigits result then Inr result
           else
             let left = search_run_end is_nonspace (slice str 0 (pos + 1));
                 right = search_first is_nonword (slice_from str pos);
                 result = (if right < 0 then slice_from str left
                           else slice str left (right + pos))
             in Inr result)"

section \<open>Tiered symbol index (server.ts)\<close>

text \<open>
  The modules \<^verbatim>\<open>hover\<close> and \<^verbatim>\<open>completion\<close> each keep three maps: \<^verbatim>\<open>selfData\<close> from
  relative path, \<^verbatim>\<open>staticData\<close> and \<^verbatim>\<open>dynamicData\<close> from language id. A bucket is a
  hover map (name to hover) or a completion list.
\<close>

record 'b TierData =
  selfData :: "string \<rightharpoonup> 'b"
  staticData :: "string \<rightharpoonup> 'b"
  dynamicData :: "string \<rightharpoonup> 'b"

text \<open>\<^verbatim>\<open>map.get(word)\<close> on a bucket guarded by \<^verbatim>\<open>if (map)\<close>.\<close>

definition bucket_get :: "('k \<rightharpoonup> 'h) option \<Rightarrow> 'k \<Rightarrow> 'h option" where
  "bucket_get bucket word = (case bucket of None \<Rightarrow> None | Some m \<Rightarrow> m word)"

text \<open>
  \<^verbatim>\<open>connection.onHover\<close>, for an open document with the given language id, relative path
  and text. \<^verbatim>\<open>translation.isTraRef\<close> and \<^verbatim>\<open>translation.getHover\<close> belong to a module
  outside the sources and are parameters. Hover values are objects, hence truthy: a
  lookup result is returned exactly when the name is present. The last test of the
  handler reads \<^verbatim>\<open>if (hover)\<close>, the module itself, and thus always returns what the
  dynamic bucket holds.
\<close>

definition onHover ::
  "(string \<Rightarrow> string \<Rightarrow> bool) \<Rightarrow> (string \<Rightarrow> string \<Rightarrow> string \<Rightarrow> string \<Rightarrow> 'h option) \<Rightarrow>
   (string \<rightharpoonup> 'h) TierData \<Rightarrow> string \<Rightarrow> string \<Rightarrow> string \<Rightarrow> Position \<Rightarrow> js_error + 'h option" where
  "onHover isTraRef getHover hover langId relPath txt position =
     (let staticMap = staticData hover langId;
          dynamicMap = dynamicData hover langId;
          selfMap = selfData hover relPath
      in if staticMap = None \<and> dynamicMap = None \<and> selfMap = None then Inr None
         else
           (case symbolAtPosition txt position of
              Inl e \<Rightarrow> Inl e
            | Inr word \<Rightarrow>
                if word = [] then Inr None
                else if isTraRef word langId then Inr (getHover word txt relPath langId)
                else
                  (case bucket_get selfMap word of
                     Some result \<Rightarrow> Inr (Some result)
                   | None \<Rightarrow>
                       (case bucket_get staticMap word of
                          Some result \<Rightarrow> Inr (Some result)
                        | None \<Rightarrow> Inr (bucket_get dynamicMap word)))))"

text \<open>
  \<^verbatim>\<open>connection.onCompletion\<close>. The self and dynamic lists fall back to \<^verbatim>\<open>[]\<close>; the
  static list does not, and spreading \<^verbatim>\<open>undefined\<close> into the array literal raises.
\<close>

definition onCompletion :: "'c list TierData \<Rightarrow> string \<Rightarrow> string \<Rightarrow> js_error + 'c list" where
  "onCompletion completion langId relPath =
     (let selfList = (case selfData completion relPath of Some l \<Rightarrow> l | None \<Rightarrow> []);
          staticList = staticData completion langId;
          dynamicList = (case dynamicData completion langId of Some l \<Rightarrow> l | None \<Rightarrow> [])
      in case staticList of
           None \<Rightarrow> Inl TypeError
         | Some sl \<Rightarrow> Inr (selfList @ sl @ dynamicList))"

section \<open>Pattern extractor (fallout-ssl.ts)\<close>

subsection \<open>Regular expression scans\<close>

text \<open>
  A pattern is modelled by its matcher at one start position: given the rest of the text
  from that position, it returns the captured groups and the length of the match, or
  \<open>None\<close>. None of the patterns scanned this way has an anchor or a look-behind, so a
  match depends on the rest of the text only.

  \<^verbatim>\<open>exec_all re skip s\<close> lists the matches of the loop
  \<^verbatim>\<open>while ((match = re.exec(text)) != null)\<close> with a global pattern: the start
  positions are tried from \<^verbatim>\<open>lastIndex\<close> on (\<open>skip\<close> characters ahead of \<open>s\<close>), the
  first position that matches wins, the next search starts where the match ended, and after
  a match of length zero \<^verbatim>\<open>lastIndex\<close> is advanced by one.
\<close>

fun exec_all :: "(string \<Rightarrow> ('g \<times> nat) option) \<Rightarrow> nat \<Rightarrow> string \<Rightarrow> 'g list" where
  "exec_all re skip [] =
     (if skip = 0 then (case re [] of None \<Rightarrow> [] | Some (g, n) \<Rightarrow> [g]) else [])"
| "exec_all re skip (c # cs) =
     (case skip of
        Suc k \<Rightarrow> exec_all re k cs
      | 0 \<Rightarrow>
          (case re (c # cs) of
             None \<Rightarrow> exec_all re 0 cs
           | Some (g, n) \<Rightarrow> g # exec_all re (n - 1) cs))"

text \<open>
  The documentation block \<^verbatim>\<open>(\/\*\*\s*\n([^*]|(\*(?!\/)))*\*\/)\r?\n\<close>. After
  \<^verbatim>\<open>/**\<close> the white space run must hold a line feed (\<^verbatim>\<open>\s*\n\<close>); the body
  \<^verbatim>\<open>([^*]|(\*(?!\/)))*\<close> cannot step over a \<^verbatim>\<open>*/\<close>, and must be followed by one, so
  the block ends at the first \<^verbatim>\<open>*/\<close>, wherever in the white space run the body starts.
  The result is group 2 (the block) and the length matched, line break included.
\<close>

fun find_comment_end :: "string \<Rightarrow> nat option" where
  "find_comment_end (c # d # cs) =
     (if c = CHR ''*'' \<and> d = CHR ''/'' then Some 0
      else map_option Suc (find_comment_end (d # cs)))"
| "find_comment_end cs = None"

definition match_jsdoc :: "string \<Rightarrow> (string \<times> nat) option" where
  "match_jsdoc s =
     (if take 3 s = ''/**'' \<and> LF \<in> set (takeWhile is_space (drop 3 s)) then
        (case find_comment_end (drop 3 s) of
           None \<Rightarrow> None
         | Some n \<Rightarrow>
             let doc_len = 3 + n + 2;
                 r = drop doc_len s;
                 cr = (if take 1 r = [CR] then 1 else 0)
             in if take 1 (drop cr r) = [LF] then Some (take doc_len s, doc_len + cr + 1)
                else None)
      else None)"

text \<open>
  An optional greedy group in front of the rest of a pattern: the group is tried first, and
  when the rest fails behind it the rest is tried without it.
\<close>

definition optional_then ::
  "(string \<Rightarrow> ('a \<times> nat) option) \<Rightarrow> (string \<Rightarrow> ('b \<times> nat) option) \<Rightarrow>
   string \<Rightarrow> (('a option \<times> 'b) \<times> nat) option" where
  "optional_then grp rest s =
     (let without = (case rest s of None \<Rightarrow> None | Some (b, n) \<Rightarrow> Some ((None, b), n))
      in case grp s of
           None \<Rightarrow> without
         | Some (a, k) \<Rightarrow>
             (case rest (drop k s) of
                None \<Rightarrow> without
              | Some (b, n) \<Rightarrow> Some ((Some a, b), k + n)))"

text \<open>
  The parameter list \<^verbatim>\<open>\(([^)]+)\)\<close>: \<^verbatim>\<open>[^)]+\<close> runs to the first \<^verbatim>\<open>)\<close> (line breaks
  included) and no shorter run is followed by one.
\<close>

definition match_params :: "string \<Rightarrow> (string \<times> nat) option" where
  "match_params s =
     (case s of
        [] \<Rightarrow> None
      | c # cs \<Rightarrow>
          let vars = takeWhile (\<lambda>x. x \<noteq> CHR '')'') cs
          in if c = CHR ''('' \<and> vars \<noteq> [] \<and> take 1 (drop (length vars) cs) = '')''
             then Some (vars, length vars + 2)
             else None)"

text \<open>
  The value \<^verbatim>\<open>[ \t]+(.+)\<close>: the blanks are taken greedily and the value is the rest of
  the line; when nothing but blanks is left on the line, the blank run gives its last
  character back to \<^verbatim>\<open>.+\<close>.
\<close>

definition match_value :: "string \<Rightarrow> (string \<times> nat) option" where
  "match_value s =
     (let ws = takeWhile is_blank s;
          v = takeWhile is_dot (dropWhile is_blank s)
      in if ws = [] then None
         else if v \<noteq> [] then Some (v, length ws + length v)
         else if 2 \<le> length ws then Some ([last ws], length ws)
         else None)"

text \<open>The block opener \<^verbatim>\<open>[\s]+begin\<close>.\<close>

definition match_begin :: "string \<Rightarrow> (unit \<times> nat) option" where
  "match_begin s =
     (let ws = takeWhile is_space s
      in if ws \<noteq> [] \<and> take 5 (dropWhile is_space s) = ''begin'' then Some ((), length ws + 5)
         else None)"

text \<open>
  A keyword, separators and a name, \<^verbatim>\<open>#define[ \t]+(\w+)\<close> or
  \<^verbatim>\<open>procedure[\s]+(\w+)\<close>, followed by the optional parameter list and the rest. The
  separator run and the name are maximal: the character behind a shorter one is again a
  separator or a word character, which nothing that follows in the pattern accepts.
\<close>

definition match_decl ::
  "string \<Rightarrow> (char \<Rightarrow> bool) \<Rightarrow> (string \<Rightarrow> ('b \<times> nat) option) \<Rightarrow>
   string \<Rightarrow> ((string \<times> string option \<times> 'b) \<times> nat) option" where
  "match_decl keyword sep rest s =
     (if take (length keyword) s = keyword then
        let r1 = drop (length keyword) s;
            ws = takeWhile sep r1;
            nm = takeWhile is_word (dropWhile sep r1);
            r3 = dropWhile is_word (dropWhile sep r1)
        in if ws = [] \<or> nm = [] then None
           else
             (case optional_then match_params rest r3 of
                None \<Rightarrow> None
              | Some ((vars, b), n) \<Rightarrow>
                  Some ((nm, vars, b), length keyword + length ws + length nm + n))
      else None)"

text \<open>The groups the extractor reads: \<^verbatim>\<open>match[2]\<close>, \<^verbatim>\<open>match[5]\<close>, \<^verbatim>\<open>match[6]\<close>, and for
  a macro \<^verbatim>\<open>match[7]\<close>.\<close>

record proc_groups =
  match2 :: "string option"
  match5 :: string
  match6 :: "string option"

record define_groups = proc_groups +
  match7 :: string

text \<open>
  \<^verbatim>\<open>/((\/\*\*\s*\n([^*]|(\*(?!\/)))*\*\/)\r?\n)?#define[ \t]+(\w+)(?:\(([^)]+)\))?[ \t]+(.+)/gm\<close>
\<close>

definition define_regex :: "string \<Rightarrow> (define_groups \<times> nat) option" where
  "define_regex s =
     (case optional_then match_jsdoc (match_decl ''#define'' is_blank match_value) s of
        None \<Rightarrow> None
      | Some ((doc, nm, vars, v), n) \<Rightarrow>
          Some (\<lparr>match2 = doc, match5 = nm, match6 = vars, match7 = v\<rparr>, n))"

text \<open>
  \<^verbatim>\<open>/((\/\*\*\s*\n([^*]|(\*(?!\/)))*\*\/)\r?\n)?procedure[\s]+(\w+)(?:\(([^)]+)\))?[\s]+begin/gm\<close>
\<close>

definition proc_regex :: "string \<Rightarrow> (proc_groups \<times> nat) option" where
  "proc_regex s =
     (case optional_then match_jsdoc (match_decl ''procedure'' is_space match_begin) s of
        None \<Rightarrow> None
      | Some ((doc, nm, vars, u), n) \<Rightarrow>
          Some (\<lparr>match2 = doc, match5 = nm, match6 = vars\<rparr>, n))"

subsection \<open>Declarations and their documentation\<close>

text \<open>
  The parsed documentation comment. The module \<^verbatim>\<open>jsdoc\<close> is outside the sources: its
  parser \<^verbatim>\<open>jsdoc.parse\<close> is a parameter of the extractor, a function that returns for
  every comment block, and the fields are those the
  server reads: \<^verbatim>\<open>desc\<close>, \<^verbatim>\<open>args\<close> with \<^verbatim>\<open>name\<close> and \<^verbatim>\<open>type\<close>, and \<^verbatim>\<open>ret\<close>, here the
  \<^verbatim>\<open>type\<close> of the return annotation when there is one.
\<close>

record JSdocArg =
  arg_name :: string
  arg_type :: string

record JSdoc =
  desc :: "string option"
  args :: "JSdocArg list"
  ret :: "string option"

text \<open>A \<^verbatim>\<open>ProcListItem\<close> (\<^verbatim>\<open>label\<close>, \<^verbatim>\<open>detail\<close>, \<^verbatim>\<open>jsdoc\<close>), which a
  \<^verbatim>\<open>DefineListItem\<close> extends by \<^verbatim>\<open>constant\<close>, \<^verbatim>\<open>multiline\<close> and \<^verbatim>\<open>firstline\<close>.\<close>

record ProcListItem =
  sym_label :: string
  sym_detail :: string
  sym_jsdoc :: "JSdoc option"

record DefineListItem = ProcListItem +
  constant' :: bool
  multiline :: bool
  firstline :: string

record HeaderDataList =
  macros :: "DefineListItem list"
  procedures :: "ProcListItem list"

definition jsdocToMD :: "JSdoc \<Rightarrow> string" where
  "jsdocToMD jsd =
     [LF] @ ''---'' @ [LF]
     @ (case desc jsd of None \<Rightarrow> [] | Some d \<Rightarrow> if d = [] then [] else [LF] @ d)
     @ concat (map (\<lambda>arg. [LF] @ ''- `'' @ arg_type arg @ ''` '' @ arg_name arg) (args jsd))
     @ (case ret jsd of None \<Rightarrow> [] | Some t \<Rightarrow> [LF, LF] @ '' Returns `'' @ t @ ''`'')"

definition jsdocToDetail :: "string \<Rightarrow> JSdoc \<Rightarrow> string" where
  "jsdocToDetail lbl jsd =
     (let type = (case ret jsd of Some t \<Rightarrow> t | None \<Rightarrow> ''void'');
          args_string = join '', '' (map (\<lambda>arg. arg_type arg @ '' '' @ arg_name arg) (args jsd))
      in type @ '' '' @ lbl @ ''('' @ args_string @ '')'')"

text \<open>\<^verbatim>\<open>constant_regex = /^[A-Z0-9_]+/\<close>, used with \<^verbatim>\<open>test\<close>: the name starts with a
  non-empty run of the class; the pattern has no end anchor.\<close>

definition constant_regex_test :: "string \<Rightarrow> bool" where
  "constant_regex_test s \<longleftrightarrow> takeWhile is_constant_char s \<noteq> []"

text \<open>The body of the first loop of \<^verbatim>\<open>find_symbols\<close>: the item pushed for one match of
  \<^verbatim>\<open>define_regex\<close>.\<close>

definition define_item :: "(string \<Rightarrow> JSdoc) \<Rightarrow> define_groups \<Rightarrow> DefineListItem" where
  "define_item jsdoc_parse m =
     (let define_name = match5 m;
          define_firstline = trimEnd (match7 m);
          multiline = endsWith_backslash define_firstline;
          define_detail =
            (case match6 m of
               Some define_vars \<Rightarrow> define_name @ ''('' @ define_vars @ '')''
             | None \<Rightarrow> define_name);
          constant = (\<not> multiline \<and> constant_regex_test define_name)
      in case match2 m of
           Some doc \<Rightarrow>
             let jsd = jsdoc_parse doc
             in \<lparr>sym_label = define_name, sym_detail = jsdocToDetail define_name jsd,
                 sym_jsdoc = Some jsd, constant' = constant, multiline = multiline,
                 firstline = define_firstline\<rparr>
         | None \<Rightarrow>
             \<lparr>sym_label = define_name, sym_detail = define_detail, sym_jsdoc = None,
              constant' = constant, multiline = multiline, firstline = define_firstline\<rparr>)"

text \<open>The body of the second loop: the item pushed for one match of \<^verbatim>\<open>proc_regex\<close>.\<close>

definition proc_item :: "(string \<Rightarrow> JSdoc) \<Rightarrow> proc_groups \<Rightarrow> ProcListItem" where
  "proc_item jsdoc_parse m =
     (let proc_name = match5 m;
          proc_detail =
            (case match6 m of
               Some vars \<Rightarrow> ''procedure '' @ proc_name @ ''('' @ vars @ '')''
             | None \<Rightarrow> ''procedure '' @ proc_name @ ''()'')
      in case match2 m of
           Some doc \<Rightarrow>
             let jsd = jsdoc_parse doc
             in \<lparr>sym_label = proc_name, sym_detail = jsdocToDetail proc_name jsd,
                 sym_jsdoc = Some jsd\<rparr>
         | None \<Rightarrow> \<lparr>sym_label = proc_name, sym_detail = proc_detail, sym_jsdoc = None\<rparr>)"

definition find_symbols :: "(string \<Rightarrow> JSdoc) \<Rightarrow> string \<Rightarrow> HeaderDataList" where
  "find_symbols jsdoc_parse txt =
     (let define_list = map (define_item jsdoc_parse) (exec_all define_regex 0 txt);
          proc_list = map (proc_item jsdoc_parse) (exec_all proc_regex 0 txt)
      in \<lparr>macros = define_list, procedures = proc_list\<rparr>)"

section \<open>Loading and reloading buckets (fallout-ssl.ts)\<close>

text \<open>
  Hover and completion entries. \<^verbatim>\<open>HoverEx\<close> and \<^verbatim>\<open>CompletionItemEx\<close> both extend their
  protocol type by \<^verbatim>\<open>source\<close>, which is therefore the common parent record here.
  \<^verbatim>\<open>labelDetails\<close> is its \<^verbatim>\<open>description\<close> when present.
\<close>

record MarkupContent =
  md_kind :: string
  md_value :: string

datatype CompletionItemKind = Function | Constant | Field

record Sourced =
  source :: string

record HoverEx = Sourced +
  contents :: MarkupContent

record CompletionItemEx = Sourced +
  label :: string
  documentation :: MarkupContent
  kind :: CompletionItemKind
  labelDetails :: "string option"

text \<open>
  \<^verbatim>\<open>DynamicData\<close>: a completion list and a hover map. The hover map is a \<^verbatim>\<open>Map\<close>
  from name to hover. The server reads it with \<^verbatim>\<open>get\<close> and iterates over it only to
  build the next map, where each key is set again; so the order of its entries never
  decides a lookup, and the map is modelled by what it holds for each key.
\<close>

record DynamicData =
  completion :: "CompletionItemEx list"
  hover :: "string \<rightharpoonup> HoverEx"

definition lang_id :: string where
  "lang_id = ''fallout-ssl''"

definition Markdown :: string where
  "Markdown = ''markdown''"

text \<open>
  The two loaders push onto the completion list and set keys of the hover map they are
  given; the pair of both is passed through. For each loader: the completion item and the
  hover item one loop iteration builds, the iteration, and the loop.
\<close>

definition procedure_entries :: "string \<Rightarrow> ProcListItem \<Rightarrow> CompletionItemEx \<times> HoverEx" where
  "procedure_entries path proc =
     (let markdown_value =
            join [LF] [''```'' @ lang_id, sym_detail proc, ''```'',
                       [LF] @ ''```bgforge-mls-comment'' @ [LF], path, ''```'']
            @ (case sym_jsdoc proc of Some jsd \<Rightarrow> jsdocToMD jsd | None \<Rightarrow> []);
          markdown_contents = \<lparr>md_kind = Markdown, md_value = markdown_value\<rparr>;
          completion_item = \<lparr>source = path, label = sym_label proc,
            documentation = markdown_contents, kind = Function, labelDetails = None\<rparr>;
          hover_item = \<lparr>source = path, contents = markdown_contents\<rparr>
      in (completion_item, hover_item))"

definition load_procedure ::
  "string \<Rightarrow> ProcListItem \<Rightarrow> CompletionItemEx list \<times> (string \<rightharpoonup> HoverEx) \<Rightarrow>
   CompletionItemEx list \<times> (string \<rightharpoonup> HoverEx)" where
  "load_procedure path proc st =
     (fst st @ [fst (procedure_entries path proc)],
      (snd st)(sym_label proc \<mapsto> snd (procedure_entries path proc)))"

definition load_procedures ::
  "string \<Rightarrow> HeaderDataList \<Rightarrow> CompletionItemEx list \<times> (string \<rightharpoonup> HoverEx) \<Rightarrow>
   CompletionItemEx list \<times> (string \<rightharpoonup> HoverEx)" where
  "load_procedures path header_data st = fold (load_procedure path) (procedures header_data) st"

definition macro_entries :: "string \<Rightarrow> DefineListItem \<Rightarrow> CompletionItemEx \<times> HoverEx" where
  "macro_entries path macro =
     (let detail = (if constant' macro then firstline macro else sym_detail macro);
          markdown_value =
            join [LF] [''```'' @ lang_id, detail, ''```'',
                       [LF] @ ''```bgforge-mls-comment'' @ [LF], path, ''```'']
            @ (if \<not> multiline macro \<and> \<not> constant' macro
               then join [LF] [[LF] @ ''```'' @ lang_id, firstline macro, ''```'']
               else []);
          completion_kind = (if constant' macro then Constant else Field);
          markdown_contents = \<lparr>md_kind = Markdown, md_value = markdown_value\<rparr>;
          completion_item = \<lparr>source = path, label = sym_label macro,
            documentation = markdown_contents, kind = completion_kind,
            labelDetails = Some path\<rparr>;
          hover_item = \<lparr>source = path, contents = markdown_contents\<rparr>
      in (completion_item, hover_item))"

definition load_macro ::
  "string \<Rightarrow> DefineListItem \<Rightarrow> CompletionItemEx list \<times> (string \<rightharpoonup> HoverEx) \<Rightarrow>
   CompletionItemEx list \<times> (string \<rightharpoonup> HoverEx)" where
  "load_macro path macro st =
     (fst st @ [fst (macro_entries path macro)],
      (snd st)(sym_label macro \<mapsto> snd (macro_entries path macro)))"

definition load_macros ::
  "string \<Rightarrow> HeaderDataList \<Rightarrow> CompletionItemEx list \<times> (string \<rightharpoonup> HoverEx) \<Rightarrow>
   CompletionItemEx list \<times> (string \<rightharpoonup> HoverEx)" where
  "load_macros path header_data st = fold (load_macro path) (macros header_data) st"

text \<open>
  \<^verbatim>\<open>load_data\<close>. The directory enters as the list \<^verbatim>\<open>find_files\<close> returns for it, each
  path with the text \<^verbatim>\<open>readFileSync\<close> reads there.
\<close>

definition load_data :: "(string \<Rightarrow> JSdoc) \<Rightarrow> (string \<times> string) list \<Rightarrow> DynamicData" where
  "load_data jsdoc_parse headers_list =
     (let st = fold (\<lambda>(header_path, txt) st.
                  let header_data = find_symbols jsdoc_parse txt
                  in load_procedures header_path header_data
                       (load_macros header_path header_data st))
                headers_list ([], Map.empty)
      in \<lparr>completion = fst st, hover = snd st\<rparr>)"

text \<open>\<^verbatim>\<open>reload_data\<close>; an \<^verbatim>\<open>undefined\<close> argument is \<open>None\<close>. The line it logs is
  left out.\<close>

definition reload_data ::
  "(string \<Rightarrow> JSdoc) \<Rightarrow> string \<Rightarrow> string \<Rightarrow> CompletionItemEx list option \<Rightarrow>
   (string \<rightharpoonup> HoverEx) option \<Rightarrow> DynamicData" where
  "reload_data jsdoc_parse path txt old_completion old_hover =
     (let symbols = find_symbols jsdoc_parse txt;
          completion = (case old_completion of None \<Rightarrow> [] | Some c \<Rightarrow> c);
          new_completion = filter (\<lambda>item. source item \<noteq> path) completion;
          hover = (case old_hover of None \<Rightarrow> Map.empty | Some h \<Rightarrow> h);
          new_hover = (\<lambda>key. case hover key of
                                None \<Rightarrow> None
                              | Some v \<Rightarrow> if source v \<noteq> path then Some v else None);
          st = load_macros path symbols (new_completion, new_hover);
          st = load_procedures path symbols st
      in \<lparr>completion = fst st, hover = snd st\<rparr>)"

section \<open>Diagnostic parser (fallout-ssl.ts)\<close>

text \<open>
  The two patterns differ in their tag only:
  \<^verbatim>\<open>/\[Error\] <(.+)>:([\d]*):([\d]*):? (.*)/g\<close> and
  \<^verbatim>\<open>/\[Warning\] <(.+)>:([\d]*):([\d]*):? (.*)/g\<close>.
  Behind group 1 the pattern is deterministic: both digit runs are maximal (a shorter one
  is followed by a digit, not by the colon), the optional colon is taken when present, and
  \<^verbatim>\<open>(.*)\<close> runs to the end of the line. Group 1, \<^verbatim>\<open>(.+)\<close>, is greedy: the longest
  stretch of the line behind which the rest matches.
\<close>

record diag_groups =
  match1 :: string
  match2' :: string
  match3 :: string
  match4 :: string

definition match_diag_tail :: "string \<Rightarrow> ((string \<times> string \<times> string) \<times> nat) option" where
  "match_diag_tail s =
     (if take 2 s = ''>:'' then
        let r1 = drop 2 s;
            g2 = takeWhile is_digit r1;
            r2 = dropWhile is_digit r1
        in if take 1 r2 = '':'' then
             let r3 = drop 1 r2;
                 g3 = takeWhile is_digit r3;
                 r4 = dropWhile is_digit r3;
                 colon = (if take 1 r4 = '':'' then 1 else 0);
                 r5 = drop colon r4
             in if take 1 r5 = '' '' then
                  let g4 = takeWhile is_dot (drop 1 r5)
                  in Some ((g2, g3, g4), 2 + length g2 + 1 + length g3 + colon + 1 + length g4)
                else None
           else None
      else None)"

fun longest_before_tail ::
  "string \<Rightarrow> nat \<Rightarrow> (nat \<times> (string \<times> string \<times> string) \<times> nat) option" where
  "longest_before_tail body 0 = None"
| "longest_before_tail body (Suc k) =
     (case match_diag_tail (drop (Suc k) body) of
        Some (g, n) \<Rightarrow> Some (Suc k, g, n)
      | None \<Rightarrow> longest_before_tail body k)"

definition diag_regex :: "string \<Rightarrow> string \<Rightarrow> (diag_groups \<times> nat) option" where
  "diag_regex tag s =
     (if take (length tag) s = tag then
        let body = drop (length tag) s
        in case longest_before_tail body (length (takeWhile is_dot body)) of
             None \<Rightarrow> None
           | Some (k, (g2, g3, g4), n) \<Rightarrow>
               Some (\<lparr>match1 = take k body, match2' = g2, match3 = g3, match4 = g4\<rparr>,
                     length tag + k + n)
      else None)"

definition errors_pattern :: "string \<Rightarrow> (diag_groups \<times> nat) option" where
  "errors_pattern = diag_regex ''[Error] <''"

definition warnings_pattern :: "string \<Rightarrow> (diag_groups \<times> nat) option" where
  "warnings_pattern = diag_regex ''[Warning] <''"

record ParseItem =
  file' :: string
  line :: js_number
  column_start :: js_number
  column_end :: js_number
  message :: string

record ParseResult =
  errors :: "ParseItem list"
  warnings :: "ParseItem list"

text \<open>
  The open document \<^verbatim>\<open>documents.get(uri)\<close>, of which the parser calls
  \<^verbatim>\<open>offsetAt({ line: line, character: 0 })\<close> only. The document class belongs to
  the protocol library; its method clamps the position to the text and returns for every
  argument, so it enters as a function of the line.
\<close>

record TextDocument =
  offsetAt :: "js_number \<Rightarrow> js_number"

text \<open>The body of the first loop of \<^verbatim>\<open>parse_compile_output\<close>.\<close>

definition error_item :: "diag_groups \<Rightarrow> ParseItem" where
  "error_item m =
     (let col = (if match3 m = [] then ''1'' else match3 m)
      in \<lparr>file' = match1 m, line = parseInt (match2' m), column_start = Num 0,
          column_end = js_minus (parseInt col) 1, message = match4 m\<rparr>)"

text \<open>The body of the second loop: the item it pushes for an open document, and the
  iteration, in which the method call on \<^verbatim>\<open>text_document\<close> raises when there is no open
  document and \<^verbatim>\<open>text_document\<close> is \<^verbatim>\<open>undefined\<close>.\<close>

definition warning_entry :: "TextDocument \<Rightarrow> diag_groups \<Rightarrow> ParseItem" where
  "warning_entry doc m =
     (let col = (if match3 m = [] then ''0'' else match3 m);
          ln = parseInt (match2' m);
          column_end = js_minus (offsetAt doc ln) 1
      in \<lparr>file' = match1 m, line = ln, column_start = parseInt col,
          column_end = column_end, message = match4 m\<rparr>)"

definition warning_item :: "TextDocument option \<Rightarrow> diag_groups \<Rightarrow> js_error + ParseItem" where
  "warning_item text_document m =
     (case text_document of
        None \<Rightarrow> Inl TypeError
      | Some doc \<Rightarrow> Inr (warning_entry doc m))"

text \<open>The second loop inside the \<^verbatim>\<open>try\<close> block: an exception leaves the loop, with the
  warnings pushed so far.\<close>

fun warnings_loop ::
  "TextDocument option \<Rightarrow> diag_groups list \<Rightarrow> ParseItem list \<Rightarrow>
   ParseItem list \<times> js_error option" where
  "warnings_loop text_document [] acc = (acc, None)"
| "warnings_loop text_document (m # ms) acc =
     (case warning_item text_document m of
        Inl e \<Rightarrow> (acc, Some e)
      | Inr w \<Rightarrow> warnings_loop text_document ms (acc @ [w]))"

text \<open>
  \<^verbatim>\<open>parse_compile_output\<close>, with the document found for the \<^verbatim>\<open>uri\<close> in place of the
  \<^verbatim>\<open>uri\<close>. One \<^verbatim>\<open>try\<close> block holds both loops; the first cannot raise. The result
  comes with what \<^verbatim>\<open>conlog\<close> printed in the \<^verbatim>\<open>catch\<close> clause.
\<close>

definition parse_compile_output ::
  "string \<Rightarrow> TextDocument option \<Rightarrow> ParseResult \<times> js_error list" where
  "parse_compile_output txt text_document =
     (let errs = map error_item (exec_all errors_pattern 0 txt);
          (warns, err) = warnings_loop text_document (exec_all warnings_pattern 0 txt) []
      in (\<lparr>errors = errs, warnings = warns\<rparr>,
          (case err of None \<Rightarrow> [] | Some e \<Rightarrow> [e])))"

section \<open>The specification's query and example data\<close>

text \<open>
  The query of the specification, in its words: it ``checks self[path], then
  static[langId], then dynamic[langId]; returns first match''.
\<close>

fun first_match :: "'h option list \<Rightarrow> 'h option" where
  "first_match [] = None"
| "first_match (Some h # rest) = Some h"
| "first_match (None # rest) = first_match rest"

definition query_spec :: "(string \<rightharpoonup> 'h) TierData \<Rightarrow> string \<Rightarrow> string \<Rightarrow> string \<Rightarrow> 'h option" where
  "query_spec idx langId path name =
     first_match [bucket_get (selfData idx path) name,
                  bucket_get (staticData idx langId) name,
                  bucket_get (dynamicData idx langId) name]"

text \<open>
  Auxiliary notions for the properties of the loaders: the names a scan declares, the
  completion items and the hover entries the two loaders build for a path from a scan,
  and the part of an old hover map that \<^verbatim>\<open>reload_data\<close> keeps.
\<close>

definition symbol_names :: "HeaderDataList \<Rightarrow> string list" where
  "symbol_names header_data =
     map sym_label (macros header_data) @ map sym_label (procedures header_data)"

definition fresh_completion :: "string \<Rightarrow> HeaderDataList \<Rightarrow> CompletionItemEx list" where
  "fresh_completion path header_data =
     map (\<lambda>macro. fst (macro_entries path macro)) (macros header_data)
     @ map (\<lambda>proc. fst (procedure_entries path proc)) (procedures header_data)"

definition fresh_hover :: "string \<Rightarrow> HeaderDataList \<Rightarrow> (string \<rightharpoonup> HoverEx)" where
  "fresh_hover path header_data =
     map_of (rev (map (\<lambda>macro. (sym_label macro, snd (macro_entries path macro)))
                      (macros header_data)))
     ++ map_of (rev (map (\<lambda>proc. (sym_label proc, snd (procedure_entries path proc)))
                         (procedures header_data)))"

definition keep_others :: "string \<Rightarrow> (string \<rightharpoonup> HoverEx) \<Rightarrow> (string \<rightharpoonup> HoverEx)" where
  "keep_others path h =
     (\<lambda>key. case h key of None \<Rightarrow> None | Some v \<Rightarrow> if source v \<noteq> path then Some v else None)"

text \<open>Collaborators for the examples: a translation module that recognises no reference,
  and a documentation parser that finds nothing.\<close>

definition never_tra_ref :: "string \<Rightarrow> string \<Rightarrow> bool" where
  "never_tra_ref word langId = False"

definition no_tra_hover :: "string \<Rightarrow> string \<Rightarrow> string \<Rightarrow> string \<Rightarrow> string option" where
  "no_tra_hover word txt relPath langId = None"

definition empty_jsdoc :: "string \<Rightarrow> JSdoc" where
  "empty_jsdoc doc = \<lparr>desc = None, args = [], ret = None\<rparr>"

text \<open>A script of two lines, \<^verbatim>\<open>#define MAX_HP 100\<close> and
  \<^verbatim>\<open>procedure start begin end\<close>.\<close>

definition example_script :: string where
  "example_script = ''#define MAX_HP 100'' @ [LF] @ ''procedure start begin end''"

text \<open>
  The diagnostic parser as the specification words it, with the exception of one line
  caught at that line: ``a single malformed line must never abort the whole diagnostic
  batch''. Each matched line is processed under its own handler; a line that raises is
  logged and the loop goes on to the next line.
\<close>

fun per_line_loop ::
  "TextDocument option \<Rightarrow> diag_groups list \<Rightarrow> ParseItem list \<times> js_error list" where
  "per_line_loop text_document [] = ([], [])"
| "per_line_loop text_document (m # ms) =
     (case warning_item text_document m of
        Inl e \<Rightarrow> (fst (per_line_loop text_document ms), e # snd (per_line_loop text_document ms))
      | Inr w \<Rightarrow> (w # fst (per_line_loop text_document ms), snd (per_line_loop text_document ms)))"

definition parse_per_line_spec ::
  "string \<Rightarrow> TextDocument option \<Rightarrow> ParseResult \<times> js_error list" where
  "parse_per_line_spec txt text_document =
     (let errs = map error_item (exec_all errors_pattern 0 txt);
          (warns, logged) = per_line_loop text_document (exec_all warnings_pattern 0 txt)
      in (\<lparr>errors = errs, warnings = warns\<rparr>, logged))"

text \<open>A natural number written in decimal, without leading zeros.\<close>

definition digit_char :: "nat \<Rightarrow> char" where
  "digit_char k = ''0123456789'' ! k"

fun decimal :: "nat \<Rightarrow> string" where
  "decimal n =
     (if n < 10 then [digit_char n] else decimal (n div 10) @ [digit_char (n mod 10)])"

declare decimal.simps [simp del]

text \<open>A compiler output of two warnings, for lines 1 and 2.\<close>

definition two_warnings :: string where
  "two_warnings =
     ''[Warning] <a.ssl>:1:1: first'' @ [LF] @ ''[Warning] <a.ssl>:2:1: second''"

section \<open>Properties of the position resolver\<close>

lemma digit_is_word: "is_digit c \<Longrightarrow> is_word c"
  by (simp add: is_word_def)

lemma digit_not_space: "is_digit c \<Longrightarrow> \<not> is_space c"
  by (auto simp: is_digit_def is_space_def)

lemma space_not_word: "is_space c \<Longrightarrow> \<not> is_word c"
  by (auto simp: is_space_def is_word_def is_lower_def is_upper_def is_digit_def)

lemma search_run_end_split:
  "ys \<noteq> [] \<Longrightarrow> list_all C ys \<Longrightarrow> xs = [] \<or> \<not> C (last xs) \<Longrightarrow>
   search_run_end C (xs @ ys) = int (length xs)"
proof (induction xs)
  case Nil
  then show ?case by (cases ys) auto
next
  case (Cons x xs)
  have notall: "\<not> list_all C ((x # xs) @ ys)"
    using Cons.prems(3) by (auto simp: list_all_iff split: if_splits)
  have "xs = [] \<or> \<not> C (last xs)"
    using Cons.prems(3) by (auto split: if_splits)
  then have "search_run_end C (xs @ ys) = int (length xs)"
    using Cons.IH Cons.prems(1,2) by blast
  then show ?case using notall by (simp add: Let_def)
qed

lemma search_first_split:
  "list_all (\<lambda>c. \<not> C c) xs \<Longrightarrow> ys = [] \<or> C (hd ys) \<Longrightarrow>
   search_first C (xs @ ys) = (if ys = [] then - 1 else int (length xs))"
proof (induction xs)
  case Nil
  then show ?case by (cases ys) auto
next
  case (Cons x xs)
  then show ?case by (auto simp: Let_def)
qed

lemma slice_take: "slice s 0 (int n) = take n s"
  by (simp add: slice_def slice_index_def Let_def min_def)

lemma slice_from_drop: "slice_from s (int n) = drop n s"
  by (simp add: slice_from_def slice_def slice_index_def Let_def min_def)

lemma slice_nat: "a \<le> length s \<Longrightarrow> b \<le> length s \<Longrightarrow> slice s (int a) (int b) = take (b - a) (drop a s)"
  by (simp add: slice_def slice_index_def Let_def min_def)


text \<open>
  Claim C2, as the code has it. The cursor is inside a run \<open>ds\<close> of digits that is a whole
  word (\<open>gap\<close> ends and \<open>post\<close> starts with a non-word character, or is empty), and \<open>gap\<close>
  is what lies between the last white space before the cursor and that run. Then the
  second pass moves the left bound back over \<open>gap\<close>, while the right bound stays at the
  end of the digits: the result is \<open>gap @ ds\<close>. On the line
  \<^verbatim>\<open>NOption(154,Node003,004\<close> this is \<^verbatim>\<open>NOption(154\<close> for a cursor inside \<^verbatim>\<open>154\<close>,
  and the whole line for a cursor inside \<^verbatim>\<open>004\<close>.
\<close>

theorem symbolAtPosition_numeric_token:
  assumes ln: "pos_line position < length (split_lines txt)"
    and str: "split_lines txt ! pos_line position = pre @ gap @ ds @ post"
    and lo: "length (pre @ gap) \<le> pos_character position"
    and hi: "pos_character position < length (pre @ gap @ ds)"
    and ds: "list_all is_digit ds"
    and gap: "list_all is_nonspace gap" "gap = [] \<or> \<not> is_word (last gap)"
    and pre: "pre = [] \<or> is_space (last pre)"
    and post: "post = [] \<or> \<not> is_word (hd post)"
  shows "symbolAtPosition txt position = Inr (gap @ ds)"
proof -
  define p where "p = pos_character position"
  define s where "s = pre @ gap @ ds @ post"
  define k where "k = p - length (pre @ gap)"
  have k: "k < length ds" "p = length (pre @ gap) + k"
    using lo hi by (auto simp: k_def p_def)
  then have dsne: "ds \<noteq> []" by auto
  have ds1: "take (Suc k) ds \<noteq> []" "list_all is_digit (take (Suc k) ds)"
    using dsne ds by (auto simp: list_all_iff dest: in_set_takeD)
  have ds2: "drop k ds \<noteq> []" "list_all is_digit (drop k ds)"
    using k ds by (auto simp: list_all_iff dest: in_set_dropD)
  have front_eq: "slice s 0 (int p + 1) = (pre @ gap) @ take (Suc k) ds"
  proof -
    have "int p + 1 = int (Suc p)" by simp
    then have "slice s 0 (int p + 1) = take (Suc p) s" by (simp only: slice_take)
    also have "\<dots> = (pre @ gap) @ take (Suc k) ds"
      using k by (simp add: s_def)
    finally show ?thesis .
  qed
  have tail_eq: "slice_from s (int p) = drop k ds @ post"
    using k by (simp only: slice_from_drop) (simp add: s_def)
  have bound_w: "pre @ gap = [] \<or> \<not> is_word (last (pre @ gap))"
    using gap(2) pre by (cases "gap = []") (auto dest: space_not_word)
  have left1: "search_run_end is_word (slice s 0 (int p + 1)) = int (length (pre @ gap))"
    unfolding front_eq using ds1 bound_w
    by (intro search_run_end_split) (auto simp: list_all_iff dest: digit_is_word)
  have right: "search_first is_nonword (slice_from s (int p))
      = (if post = [] then - 1 else int (length (drop k ds)))"
    unfolding tail_eq using ds2 post
    by (intro search_first_split) (auto simp: list_all_iff is_nonword_def dest: digit_is_word)
  have endpos: "int (length (drop k ds)) + int p = int (length (pre @ gap @ ds))"
    using k by simp
  have res1: "(if search_first is_nonword (slice_from s (int p)) < 0
               then slice_from s (search_run_end is_word (slice s 0 (int p + 1)))
               else slice s (search_run_end is_word (slice s 0 (int p + 1)))
                      (search_first is_nonword (slice_from s (int p)) + int p)) = ds"
  proof (cases "post = []")
    case True
    then show ?thesis
      unfolding left1 right by (simp only: slice_from_drop if_True) (simp add: s_def)
  next
    case False
    have sl: "slice s (int (length (pre @ gap))) (int (length (pre @ gap @ ds))) = ds"
      by (subst slice_nat) (simp_all add: s_def)
    have r0: "\<not> search_first is_nonword (slice_from s (int p)) < 0"
      and r1: "search_first is_nonword (slice_from s (int p)) + int p
                 = int (length (pre @ gap @ ds))"
      using False right endpos by simp_all
    show ?thesis
      by (simp only: left1 r0 r1 if_False sl)
  qed
  have bound_s: "pre = [] \<or> \<not> is_nonspace (last pre)"
    using pre by (simp add: is_nonspace_def)
  have left2: "search_run_end is_nonspace (slice s 0 (int p + 1)) = int (length pre)"
  proof -
    have "slice s 0 (int p + 1) = pre @ (gap @ take (Suc k) ds)"
      using front_eq by simp
    moreover have "list_all is_nonspace (gap @ take (Suc k) ds)"
      using gap(1) ds1 by (auto simp: list_all_iff is_nonspace_def dest: digit_not_space)
    moreover have "gap @ take (Suc k) ds \<noteq> []" using ds1 by simp
    ultimately show ?thesis using bound_s by (simp add: search_run_end_split)
  qed
  have res2: "(if search_first is_nonword (slice_from s (int p)) < 0
               then slice_from s (search_run_end is_nonspace (slice s 0 (int p + 1)))
               else slice s (search_run_end is_nonspace (slice s 0 (int p + 1)))
                      (search_first is_nonword (slice_from s (int p)) + int p)) = gap @ ds"
  proof (cases "post = []")
    case True
    then show ?thesis
      unfolding left2 right by (simp only: slice_from_drop if_True) (simp add: s_def)
  next
    case False
    have sl: "slice s (int (length pre)) (int (length (pre @ gap @ ds))) = gap @ ds"
      by (subst slice_nat) (simp_all add: s_def)
    have r0: "\<not> search_first is_nonword (slice_from s (int p)) < 0"
      and r1: "search_first is_nonword (slice_from s (int p)) + int p
                 = int (length (pre @ gap @ ds))"
      using False right endpos by simp_all
    show ?thesis
      by (simp only: left2 r0 r1 if_False sl)
  qed
  have od: "onlyDigits ds" using dsne ds by (simp add: onlyDigits_def)
  show ?thesis
    using ln od res1 res2
    unfolding symbolAtPosition_def Let_def str s_def[symmetric] p_def[symmetric]
    by simp
qed



theorem symbolAtPosition_numeric_token_witness:
  "symbolAtPosition ''NOption(154,Node003,004'' \<lparr>pos_line = 0, pos_character = 9\<rparr>
     = Inr ''NOption(154''
   \<and> symbolAtPosition ''NOption(154,Node003,004'' \<lparr>pos_line = 0, pos_character = 21\<rparr>
     = Inr ''NOption(154,Node003,004''"
proof -
  let ?txt = "''NOption(154,Node003,004''"
  let ?p = "\<lparr>pos_line = 0, pos_character = 9\<rparr>"
  have 1: "pos_line ?p < length (split_lines ?txt)"
    by code_simp
  have 2: "split_lines ?txt ! pos_line ?p = [] @ ''NOption('' @ ''154'' @ '',Node003,004''"
    by code_simp
  have 3: "length ([] @ ''NOption('') \<le> pos_character ?p"
    by simp
  have 4: "pos_character ?p < length ([] @ ''NOption('' @ ''154'')"
    by simp
  have 5: "list_all is_digit ''154''"
    by code_simp
  have 6: "list_all is_nonspace ''NOption(''"
    by code_simp
  have 7: "''NOption('' = [] \<or> \<not> is_word (last ''NOption('')"
    by code_simp
  have 8: "[] = [] \<or> is_space (last [])"
    by simp
  have 9: "'',Node003,004'' = [] \<or> \<not> is_word (hd '',Node003,004'')"
    by code_simp
  have first: "symbolAtPosition ?txt ?p = Inr ''NOption(154''"
    using symbolAtPosition_numeric_token [OF 1 2 3 4 5 6 7 8 9] by simp
  let ?q = "\<lparr>pos_line = 0, pos_character = 21\<rparr>"
  have 1: "pos_line ?q < length (split_lines ?txt)"
    by code_simp
  have 2: "split_lines ?txt ! pos_line ?q = [] @ ''NOption(154,Node003,'' @ ''004'' @ []"
    by code_simp
  have 3: "length ([] @ ''NOption(154,Node003,'') \<le> pos_character ?q"
    by simp
  have 4: "pos_character ?q < length ([] @ ''NOption(154,Node003,'' @ ''004'')"
    by simp
  have 5: "list_all is_digit ''004''"
    by code_simp
  have 6: "list_all is_nonspace ''NOption(154,Node003,''"
    by code_simp
  have 7: "''NOption(154,Node003,'' = [] \<or> \<not> is_word (last ''NOption(154,Node003,'')"
    by code_simp
  have 9: "[] = [] \<or> \<not> is_word (hd [])"
    by simp
  have second: "symbolAtPosition ?txt ?q = Inr ''NOption(154,Node003,004''"
    using symbolAtPosition_numeric_token [OF 1 2 3 4 5 6 7 8 9] by simp
  from first second show ?thesis by blast
qed

text \<open>
  Claim C2, as stated, fails: with the cursor inside \<^verbatim>\<open>154\<close> the token ends at the comma
  behind the digits and is \<^verbatim>\<open>NOption(154\<close>, not the whole \<^verbatim>\<open>NOption(154,Node003,004\<close>.
\<close>

theorem symbolAtPosition_compound_counterexample:
  "symbolAtPosition ''NOption(154,Node003,004'' \<lparr>pos_line = 0, pos_character = 9\<rparr>
     \<noteq> Inr ''NOption(154,Node003,004''"
  by code_simp

section \<open>Properties of the pattern extractor\<close>

lemma define_item_constant:
  "constant' (define_item jsdoc_parse m) \<longleftrightarrow>
     \<not> multiline (define_item jsdoc_parse m) \<and> match5 m \<noteq> [] \<and> is_constant_char (hd (match5 m))"
  by (cases "match5 m")
     (auto simp: define_item_def Let_def constant_regex_test_def split: option.splits)

text \<open>
  Claim C3 (a macro is a constant iff it is on one line and its name consists of upper-case
  letters, digits and underscores only). The pattern \<^verbatim>\<open>/^[A-Z0-9_]+/\<close> has no end anchor,
  so the test holds as soon as the first character of the name is in the class: the macro
  \<^verbatim>\<open>Foo\<close>, whose name is not made of such characters only, is classified as a constant.
\<close>

theorem find_symbols_mixed_case_constant:
  "map (\<lambda>d. (sym_label d, constant' d, multiline d))
       (macros (find_symbols jsdoc_parse ''#define Foo 1'')) = [(''Foo'', True, False)]
   \<and> \<not> list_all is_constant_char ''Foo''"
  by code_simp

section \<open>Properties of loading and reloading\<close>

lemma fold_push_set:
  "fold (\<lambda>x st. (fst st @ [ci x], (snd st)(lab x \<mapsto> hi x))) xs st
     = (fst st @ map ci xs, snd st ++ map_of (rev (map (\<lambda>x. (lab x, hi x)) xs)))"
proof (induction xs arbitrary: st)
  case Nil
  show ?case by simp
next
  case (Cons x xs)
  let ?f = "\<lambda>x st. (fst st @ [ci x], (snd st)(lab x \<mapsto> hi x))"
  let ?rest = "map_of (rev (map (\<lambda>x. (lab x, hi x)) xs))"
  have "fold ?f (x # xs) st = fold ?f xs (fst st @ [ci x], (snd st)(lab x \<mapsto> hi x))"
    by (simp only: fold_simps o_apply)
  also have "\<dots> = ((fst st @ [ci x]) @ map ci xs, (snd st)(lab x \<mapsto> hi x) ++ ?rest)"
    by (simp only: Cons.IH fst_conv snd_conv)
  also have "(snd st)(lab x \<mapsto> hi x) ++ ?rest
               = snd st ++ map_of (rev (map (\<lambda>x. (lab x, hi x)) (x # xs)))"
  proof -
    have "map_of (rev (map (\<lambda>x. (lab x, hi x)) (x # xs))) = [lab x \<mapsto> hi x] ++ ?rest"
      by (simp add: map_of_append)
    moreover have "snd st ++ [lab x \<mapsto> hi x] = (snd st)(lab x \<mapsto> hi x)"
      by simp
    ultimately show ?thesis
      by (metis map_add_assoc)
  qed
  finally show ?case by simp
qed

lemma load_macros_eq:
  "load_macros path d st =
     (fst st @ map (\<lambda>m. fst (macro_entries path m)) (macros d),
      snd st ++ map_of (rev (map (\<lambda>m. (sym_label m, snd (macro_entries path m))) (macros d))))"
proof -
  have "load_macro path = (\<lambda>m st. (fst st @ [fst (macro_entries path m)],
            (snd st)(sym_label m \<mapsto> snd (macro_entries path m))))"
    by (intro ext) (simp add: load_macro_def)
  then show ?thesis
    unfolding load_macros_def by (simp only: fold_push_set)
qed

lemma load_procedures_eq:
  "load_procedures path d st =
     (fst st @ map (\<lambda>m. fst (procedure_entries path m)) (procedures d),
      snd st ++ map_of (rev (map (\<lambda>m. (sym_label m, snd (procedure_entries path m))) (procedures d))))"
proof -
  have "load_procedure path = (\<lambda>m st. (fst st @ [fst (procedure_entries path m)],
            (snd st)(sym_label m \<mapsto> snd (procedure_entries path m))))"
    by (intro ext) (simp add: load_procedure_def)
  then show ?thesis
    unfolding load_procedures_def by (simp only: fold_push_set)
qed

lemma macro_entries_source:
  "source (fst (macro_entries path m)) = path" "source (snd (macro_entries path m)) = path"
  "label (fst (macro_entries path m)) = sym_label m"
  by (simp_all add: macro_entries_def Let_def)

lemma procedure_entries_source:
  "source (fst (procedure_entries path m)) = path" "source (snd (procedure_entries path m)) = path"
  "label (fst (procedure_entries path m)) = sym_label m"
  by (simp_all add: procedure_entries_def Let_def)

lemma map_of_rev_entries:
  "map_of (rev (map (\<lambda>x. (lab x, hi x)) xs)) k = Some v \<Longrightarrow> \<exists>x \<in> set xs. k = lab x \<and> v = hi x"
  by (auto dest!: map_of_SomeD)

lemma dom_map_of_rev_entries:
  "dom (map_of (rev (map (\<lambda>x. (lab x, hi x)) xs))) = lab ` set xs"
  by (simp add: dom_map_of_conv_image_fst image_image)

lemma loaders_eq:
  "load_procedures path d (load_macros path d st)
     = (fst st @ fresh_completion path d, snd st ++ fresh_hover path d)"
  by (simp add: load_macros_eq load_procedures_eq fresh_completion_def fresh_hover_def)

lemma reload_data_eq:
  "reload_data p path txt c h =
     \<lparr>completion = filter (\<lambda>item. source item \<noteq> path) (case c of None \<Rightarrow> [] | Some l \<Rightarrow> l)
                     @ fresh_completion path (find_symbols p txt),
      hover = keep_others path (case h of None \<Rightarrow> Map.empty | Some m \<Rightarrow> m)
                ++ fresh_hover path (find_symbols p txt)\<rparr>"
  unfolding reload_data_def Let_def loaders_eq keep_others_def by simp

lemma fresh_completion_source: "i \<in> set (fresh_completion path d) \<Longrightarrow> source i = path"
  by (auto simp: fresh_completion_def macro_entries_source procedure_entries_source)

lemma fresh_completion_labels: "map label (fresh_completion path d) = symbol_names d"
  by (simp add: fresh_completion_def symbol_names_def macro_entries_source
      procedure_entries_source comp_def)

lemma fresh_hover_source: "fresh_hover path d k = Some v \<Longrightarrow> source v = path"
  by (auto simp: fresh_hover_def macro_entries_source procedure_entries_source
      dest!: map_of_rev_entries)

lemma dom_fresh_hover: "dom (fresh_hover path d) = set (symbol_names d)"
  by (auto simp: fresh_hover_def symbol_names_def dom_map_of_rev_entries)

lemma keep_others_source: "keep_others path h k = Some v \<Longrightarrow> h k = Some v \<and> source v \<noteq> path"
  by (auto simp: keep_others_def split: option.splits if_splits)

lemma filter_fresh_completion:
  "filter (\<lambda>item. source item \<noteq> path) (fresh_completion path d) = []"
  by (auto simp: filter_empty_conv dest: fresh_completion_source)

lemma keep_others_add_fresh:
  "keep_others path (keep_others path h ++ fresh_hover path d) ++ fresh_hover path d
     = keep_others path h ++ fresh_hover path d"
proof (rule ext)
  fix k
  show "(keep_others path (keep_others path h ++ fresh_hover path d) ++ fresh_hover path d) k
          = (keep_others path h ++ fresh_hover path d) k"
  proof (cases "fresh_hover path d k")
    case None
    then show ?thesis
      by (auto simp: map_add_def keep_others_def split: option.splits)
  next
    case (Some v)
    then show ?thesis by (simp add: map_add_def)
  qed
qed


lemma load_macros_pushed:
  "i \<in> set (drop (length (fst st)) (fst (load_macros path d st))) \<Longrightarrow> source i = path"
  by (auto simp: load_macros_eq macro_entries_source)

lemma load_procedures_pushed:
  "i \<in> set (drop (length (fst st)) (fst (load_procedures path d st))) \<Longrightarrow> source i = path"
  by (auto simp: load_procedures_eq procedure_entries_source)

lemma load_macros_set:
  "snd (load_macros path d st) k = Some v \<Longrightarrow> snd st k \<noteq> Some v \<Longrightarrow> source v = path"
  by (auto simp: load_macros_eq map_add_def macro_entries_source
      split: option.splits dest!: map_of_rev_entries)

lemma load_procedures_set:
  "snd (load_procedures path d st) k = Some v \<Longrightarrow> snd st k \<noteq> Some v \<Longrightarrow> source v = path"
  by (auto simp: load_procedures_eq map_add_def procedure_entries_source
      split: option.splits dest!: map_of_rev_entries)

lemma reload_data_attributed:
  "filter (\<lambda>item. source item = path) (completion (reload_data p path txt c h))
     = fresh_completion path (find_symbols p txt)"
proof -
  have "filter (\<lambda>item. source item = path) (fresh_completion path (find_symbols p txt))
          = fresh_completion path (find_symbols p txt)"
    by (auto simp: filter_id_conv dest: fresh_completion_source)
  moreover have "filter (\<lambda>item. source item = path)
      (filter (\<lambda>item. source item \<noteq> path) (case c of None \<Rightarrow> [] | Some l \<Rightarrow> l)) = []"
    by (auto simp: filter_empty_conv)
  ultimately show ?thesis by (simp add: reload_data_eq)
qed

lemma reload_data_hover_attributed:
  "hover (reload_data p path txt c h) k = Some v \<Longrightarrow> source v = path \<Longrightarrow>
   fresh_hover path (find_symbols p txt) k = Some v"
  by (auto simp: reload_data_eq map_add_def split: option.splits dest: keep_others_source)

lemma load_data_eq:
  "load_data p hs =
     (let st = fold (\<lambda>ht st. (fst st @ fresh_completion (fst ht) (find_symbols p (snd ht)),
                               snd st ++ fresh_hover (fst ht) (find_symbols p (snd ht))))
                hs ([], Map.empty)
      in \<lparr>completion = fst st, hover = snd st\<rparr>)"
proof -
  have "(\<lambda>(header_path, txt) st.
           let header_data = find_symbols p txt
           in load_procedures header_path header_data (load_macros header_path header_data st))
        = (\<lambda>ht st. (fst st @ fresh_completion (fst ht) (find_symbols p (snd ht)),
                     snd st ++ fresh_hover (fst ht) (find_symbols p (snd ht))))"
    by (intro ext) (simp add: loaders_eq Let_def split: prod.splits)
  then show ?thesis
    unfolding load_data_def by (simp only:)
qed

lemma label_fresh_completion:
  "i \<in> set (fresh_completion path d) \<Longrightarrow> label i \<in> set (symbol_names d)"
  using fresh_completion_labels [of path d] by (metis image_eqI set_map)

lemma load_fold_completion:
  "i \<in> set (fst (fold (\<lambda>ht st. (fst st @ fresh_completion (fst ht) (find_symbols p (snd ht)),
                               snd st ++ fresh_hover (fst ht) (find_symbols p (snd ht)))) hs st))
   \<Longrightarrow> i \<in> set (fst st)
       \<or> (\<exists>ht \<in> set hs. source i = fst ht \<and> label i \<in> set (symbol_names (find_symbols p (snd ht))))"
proof (induction hs arbitrary: st)
  case Nil
  then show ?case by simp
next
  case (Cons ht hs)
  from Cons.prems have "i \<in> set (fst (fold (\<lambda>ht st. (fst st @ fresh_completion (fst ht) (find_symbols p (snd ht)),
                               snd st ++ fresh_hover (fst ht) (find_symbols p (snd ht)))) hs
       (fst st @ fresh_completion (fst ht) (find_symbols p (snd ht)),
        snd st ++ fresh_hover (fst ht) (find_symbols p (snd ht)))))"
    by (simp only: fold_simps o_apply)
  from Cons.IH [OF this] show ?case
    by (auto dest: fresh_completion_source label_fresh_completion)
qed

lemma load_fold_hover:
  "snd (fold (\<lambda>ht st. (fst st @ fresh_completion (fst ht) (find_symbols p (snd ht)),
                               snd st ++ fresh_hover (fst ht) (find_symbols p (snd ht)))) hs st) k
     = Some v
   \<Longrightarrow> snd st k = Some v
       \<or> (\<exists>ht \<in> set hs. source v = fst ht \<and> k \<in> set (symbol_names (find_symbols p (snd ht))))"
proof (induction hs arbitrary: st)
  case Nil
  then show ?case by simp
next
  case (Cons ht hs)
  from Cons.prems have "snd (fold (\<lambda>ht st. (fst st @ fresh_completion (fst ht) (find_symbols p (snd ht)),
                               snd st ++ fresh_hover (fst ht) (find_symbols p (snd ht)))) hs
       (fst st @ fresh_completion (fst ht) (find_symbols p (snd ht)),
        snd st ++ fresh_hover (fst ht) (find_symbols p (snd ht)))) k = Some v"
    by (simp only: fold_simps o_apply)
  from Cons.IH [OF this] show ?case
  proof
    assume "snd (fst st @ fresh_completion (fst ht) (find_symbols p (snd ht)),
        snd st ++ fresh_hover (fst ht) (find_symbols p (snd ht))) k = Some v"
    then have "snd st k = Some v \<or> fresh_hover (fst ht) (find_symbols p (snd ht)) k = Some v"
      by (auto simp: map_add_def split: option.splits)
    then show ?thesis
      using dom_fresh_hover [of "fst ht" "find_symbols p (snd ht)"]
      by (auto dest: fresh_hover_source)
  next
    assume "\<exists>ht\<in>set hs. source v = fst ht \<and> k \<in> set (symbol_names (find_symbols p (snd ht)))"
    then show ?thesis by auto
  qed
qed

lemma map_all_const: "\<forall>i \<in> set xs. f i = c \<Longrightarrow> map f xs = replicate (length xs) c"
  by (induction xs) auto

lemma find_symbols_example:
  "find_symbols empty_jsdoc example_script
     = \<lparr>macros = [\<lparr>sym_label = ''MAX_HP'', sym_detail = ''MAX_HP'', sym_jsdoc = None,
                    constant' = True, multiline = False, firstline = ''100''\<rparr>],
        procedures = [\<lparr>sym_label = ''start'', sym_detail = ''procedure start()'',
                        sym_jsdoc = None\<rparr>]\<rparr>"
  by code_simp

lemma find_symbols_FOO:
  "find_symbols empty_jsdoc ''#define FOO 1''
     = \<lparr>macros = [\<lparr>sym_label = ''FOO'', sym_detail = ''FOO'', sym_jsdoc = None,
                    constant' = True, multiline = False, firstline = ''1''\<rparr>],
        procedures = []\<rparr>"
  by code_simp

text \<open>
  Claim C7 (idempotence). Reloading a file again with the same text, on the bucket the
  first reload returned, gives that bucket back: the same completion list and the same
  hover map.
\<close>

theorem reload_data_idempotent:
  "reload_data p path txt
     (Some (completion (reload_data p path txt c h)))
     (Some (hover (reload_data p path txt c h)))
   = reload_data p path txt c h"
  by (simp add: reload_data_eq filter_fresh_completion keep_others_add_fresh)

text \<open>
  Claim C8, as the code has it. The completion items of other sources are kept, unchanged
  and in their order. A hover entry of another source is kept when the reloaded text
  declares no symbol of its name; the names the text declares map to entries of the
  reloaded path afterwards, whatever the map held for them.
\<close>

theorem reload_data_isolation:
  "filter (\<lambda>item. source item \<noteq> path) (completion (reload_data p path txt (Some c) (Some h)))
     = filter (\<lambda>item. source item \<noteq> path) c
   \<and> (\<forall>k v. h k = Some v \<and> source v \<noteq> path \<and> k \<notin> set (symbol_names (find_symbols p txt))
          \<longrightarrow> hover (reload_data p path txt (Some c) (Some h)) k = Some v)
   \<and> (\<forall>k \<in> set (symbol_names (find_symbols p txt)).
          \<exists>v. hover (reload_data p path txt (Some c) (Some h)) k = Some v \<and> source v = path)"
proof (intro conjI allI impI ballI)
  show "filter (\<lambda>item. source item \<noteq> path) (completion (reload_data p path txt (Some c) (Some h)))
          = filter (\<lambda>item. source item \<noteq> path) c"
    by (simp add: reload_data_eq filter_fresh_completion)
next
  fix k v
  assume a: "h k = Some v \<and> source v \<noteq> path \<and> k \<notin> set (symbol_names (find_symbols p txt))"
  then have "fresh_hover path (find_symbols p txt) k = None"
    using dom_fresh_hover [of path "find_symbols p txt"] by blast
  moreover have "keep_others path h k = Some v"
    using a by (simp add: keep_others_def)
  ultimately show "hover (reload_data p path txt (Some c) (Some h)) k = Some v"
    by (simp add: reload_data_eq map_add_def)
next
  fix k
  assume "k \<in> set (symbol_names (find_symbols p txt))"
  then obtain v where v: "fresh_hover path (find_symbols p txt) k = Some v"
    using dom_fresh_hover [of path "find_symbols p txt"] by blast
  then have "source v = path" by (rule fresh_hover_source)
  with v show "\<exists>v. hover (reload_data p path txt (Some c) (Some h)) k = Some v \<and> source v = path"
    by (simp add: reload_data_eq map_add_def)
qed

theorem reload_data_isolation_witness:
  "filter (\<lambda>item. source item \<noteq> ''a.h'')
     (completion (reload_data empty_jsdoc ''a.h'' ''#define FOO 1''
        (Some [\<lparr>source = ''b.h'', label = ''BAR'',
                 documentation = \<lparr>md_kind = ''markdown'', md_value = ''bar''\<rparr>,
                 kind = Constant, labelDetails = None\<rparr>])
        (Some [''BAR'' \<mapsto> \<lparr>source = ''b.h'',
                 contents = \<lparr>md_kind = ''markdown'', md_value = ''bar''\<rparr>\<rparr>])))
     = [\<lparr>source = ''b.h'', label = ''BAR'',
          documentation = \<lparr>md_kind = ''markdown'', md_value = ''bar''\<rparr>,
          kind = Constant, labelDetails = None\<rparr>]
   \<and> hover (reload_data empty_jsdoc ''a.h'' ''#define FOO 1''
        (Some [\<lparr>source = ''b.h'', label = ''BAR'',
                 documentation = \<lparr>md_kind = ''markdown'', md_value = ''bar''\<rparr>,
                 kind = Constant, labelDetails = None\<rparr>])
        (Some [''BAR'' \<mapsto> \<lparr>source = ''b.h'',
                 contents = \<lparr>md_kind = ''markdown'', md_value = ''bar''\<rparr>\<rparr>])) ''BAR''
     = Some \<lparr>source = ''b.h'', contents = \<lparr>md_kind = ''markdown'', md_value = ''bar''\<rparr>\<rparr>"
  using reload_data_isolation [of "''a.h''" empty_jsdoc "''#define FOO 1''"
      "[\<lparr>source = ''b.h'', label = ''BAR'',
         documentation = \<lparr>md_kind = ''markdown'', md_value = ''bar''\<rparr>,
         kind = Constant, labelDetails = None\<rparr>]"
      "[''BAR'' \<mapsto> \<lparr>source = ''b.h'',
         contents = \<lparr>md_kind = ''markdown'', md_value = ''bar''\<rparr>\<rparr>]"]
  by (simp add: find_symbols_FOO symbol_names_def)

text \<open>
  Claim C8, as stated, fails for the hover map, which is keyed by name alone: the entry for
  \<^verbatim>\<open>FOO\<close> that came from \<^verbatim>\<open>b.h\<close> is replaced when \<^verbatim>\<open>a.h\<close> is reloaded with a
  declaration of \<^verbatim>\<open>FOO\<close>.
\<close>

theorem reload_data_hover_overwrite_counterexample:
  "hover (reload_data empty_jsdoc ''a.h'' ''#define FOO 1'' (Some [])
        (Some [''FOO'' \<mapsto> \<lparr>source = ''b.h'',
                 contents = \<lparr>md_kind = ''markdown'', md_value = ''foo of b''\<rparr>\<rparr>])) ''FOO''
     \<noteq> Some \<lparr>source = ''b.h'', contents = \<lparr>md_kind = ''markdown'', md_value = ''foo of b''\<rparr>\<rparr>"
proof -
  have "\<exists>v. hover (reload_data empty_jsdoc ''a.h'' ''#define FOO 1'' (Some [])
        (Some [''FOO'' \<mapsto> \<lparr>source = ''b.h'',
                 contents = \<lparr>md_kind = ''markdown'', md_value = ''foo of b''\<rparr>\<rparr>])) ''FOO'' = Some v
        \<and> source v = ''a.h''"
    by (simp add: reload_data_eq fresh_hover_def find_symbols_FOO macro_entries_def Let_def)
  then show ?thesis by auto
qed

text \<open>
  Claim C9 (loaded entries carry the path as their source). The items each loader pushes
  and the hover entries it sets have the path as source; after \<^verbatim>\<open>reload_data\<close> the
  entries with the path as source are exactly those built from the new text; and every
  entry of \<^verbatim>\<open>load_data\<close> has as source the path of a header that declares its name.
\<close>

theorem loaded_entries_carry_source:
  "(\<forall>i \<in> set (drop (length (fst st)) (fst (load_macros path d st))). source i = path)
   \<and> (\<forall>k v. snd (load_macros path d st) k = Some v \<and> snd st k \<noteq> Some v \<longrightarrow> source v = path)
   \<and> (\<forall>i \<in> set (drop (length (fst st)) (fst (load_procedures path d st))). source i = path)
   \<and> (\<forall>k v. snd (load_procedures path d st) k = Some v \<and> snd st k \<noteq> Some v
          \<longrightarrow> source v = path)
   \<and> filter (\<lambda>item. source item = path) (completion (reload_data p path txt c h))
       = fresh_completion path (find_symbols p txt)
   \<and> (\<forall>i \<in> set (fresh_completion path (find_symbols p txt)). source i = path)
   \<and> (\<forall>k v. hover (reload_data p path txt c h) k = Some v \<and> source v = path
          \<longrightarrow> fresh_hover path (find_symbols p txt) k = Some v)
   \<and> (\<forall>k v. fresh_hover path (find_symbols p txt) k = Some v
          \<longrightarrow> hover (reload_data p path txt c h) k = Some v \<and> source v = path)
   \<and> (\<forall>i \<in> set (completion (load_data p hs)).
          \<exists>ht \<in> set hs. source i = fst ht
             \<and> label i \<in> set (symbol_names (find_symbols p (snd ht))))
   \<and> (\<forall>k v. hover (load_data p hs) k = Some v
          \<longrightarrow> (\<exists>ht \<in> set hs. source v = fst ht
                 \<and> k \<in> set (symbol_names (find_symbols p (snd ht)))))"
proof (intro conjI ballI allI impI)
  fix k v
  assume "fresh_hover path (find_symbols p txt) k = Some v"
  then show "hover (reload_data p path txt c h) k = Some v"
    by (simp add: reload_data_eq map_add_def)
next
  fix i
  assume "i \<in> set (completion (load_data p hs))"
  then show "\<exists>ht \<in> set hs. source i = fst ht
      \<and> label i \<in> set (symbol_names (find_symbols p (snd ht)))"
    using load_fold_completion [of i p hs "([], Map.empty)"]
    by (simp add: load_data_eq Let_def)
next
  fix k v
  assume "hover (load_data p hs) k = Some v"
  then show "\<exists>ht \<in> set hs. source v = fst ht
      \<and> k \<in> set (symbol_names (find_symbols p (snd ht)))"
    using load_fold_hover [of p hs "([], Map.empty)" k v]
    by (simp add: load_data_eq Let_def)
qed (auto intro: load_macros_pushed load_procedures_pushed load_macros_set load_procedures_set
      reload_data_attributed fresh_completion_source fresh_hover_source
      reload_data_hover_attributed)

theorem loaded_entries_carry_source_witness:
  "map source (fst (load_macros ''lib.h'' (find_symbols empty_jsdoc ''#define FOO 1'')
                      ([], Map.empty))) = [''lib.h'']
   \<and> map source (completion (load_data empty_jsdoc [(''lib.h'', ''#define FOO 1'')])) = [''lib.h'']"
proof -
  note t = loaded_entries_carry_source [of "([], Map.empty)" "''lib.h''"
      "find_symbols empty_jsdoc ''#define FOO 1''" empty_jsdoc "''#define FOO 1''" None None
      "[(''lib.h'', ''#define FOO 1'')]"]
  let ?l = "fst (load_macros ''lib.h'' (find_symbols empty_jsdoc ''#define FOO 1'') ([], Map.empty))"
  let ?c = "completion (load_data empty_jsdoc [(''lib.h'', ''#define FOO 1'')])"
  have "length ?l = 1"
    by (simp add: load_macros_eq find_symbols_FOO)
  moreover have "\<forall>i \<in> set ?l. source i = ''lib.h''"
    using t by simp
  ultimately have 1: "map source ?l = [''lib.h'']"
    using map_all_const [of ?l source "''lib.h''"] by simp
  have "length ?c = 1"
    by (simp add: load_data_eq Let_def fresh_completion_def find_symbols_FOO)
  moreover have "\<forall>i \<in> set ?c. source i = ''lib.h''"
    using t by simp
  ultimately have 2: "map source ?c = [''lib.h'']"
    using map_all_const [of ?c source "''lib.h''"] by simp
  from 1 2 show ?thesis by blast
qed

text \<open>
  Claim C10 (reloading with undefined buckets). With both arguments undefined the result
  is that for an empty list and an empty map: one completion item per extracted symbol,
  in order, all with the path as source, and a hover entry for exactly the extracted names,
  each with the path as source. Nothing in the function can raise.
\<close>

theorem reload_data_undefined:
  "map label (completion (reload_data p path txt None None)) = symbol_names (find_symbols p txt)
   \<and> (\<forall>i \<in> set (completion (reload_data p path txt None None)). source i = path)
   \<and> dom (hover (reload_data p path txt None None)) = set (symbol_names (find_symbols p txt))
   \<and> (\<forall>k v. hover (reload_data p path txt None None) k = Some v \<longrightarrow> source v = path)
   \<and> completion (reload_data p path txt None None) = completion (reload_data p path txt (Some []) (Some Map.empty))
   \<and> hover (reload_data p path txt None None) = hover (reload_data p path txt (Some []) (Some Map.empty))"
proof -
  have e: "keep_others path Map.empty = Map.empty"
    by (simp add: keep_others_def)
  show ?thesis
    by (auto simp: reload_data_eq e fresh_completion_labels dom_fresh_hover
        dest: fresh_completion_source fresh_hover_source)
qed

theorem reload_data_undefined_witness:
  "map label (completion (reload_data empty_jsdoc ''main.ssl''
       example_script None None))
     = [''MAX_HP'', ''start'']
   \<and> map source (completion (reload_data empty_jsdoc ''main.ssl''
       example_script None None))
     = [''main.ssl'', ''main.ssl'']
   \<and> dom (hover (reload_data empty_jsdoc ''main.ssl''
       example_script None None))
     = {''MAX_HP'', ''start''}"
proof -
  let ?r = "reload_data empty_jsdoc ''main.ssl''
       example_script None None"
  note t = reload_data_undefined [of empty_jsdoc "''main.ssl''"
       example_script]
  have names: "symbol_names (find_symbols empty_jsdoc
       example_script) = [''MAX_HP'', ''start'']"
    by (simp add: find_symbols_example symbol_names_def)
  have 1: "map label (completion ?r) = [''MAX_HP'', ''start'']"
    using t [THEN conjunct1] names by simp
  then have "length (completion ?r) = 2"
    by (metis length_map length_Cons list.size(3) numeral_2_eq_2)
  moreover have "\<forall>i \<in> set (completion ?r). source i = ''main.ssl''"
    using t [THEN conjunct2, THEN conjunct1] .
  ultimately have 2: "map source (completion ?r) = [''main.ssl'', ''main.ssl'']"
    using map_all_const [of "completion ?r" source "''main.ssl''"]
    by (simp add: numeral_2_eq_2)
  have 3: "dom (hover ?r) = {''MAX_HP'', ''start''}"
    using t [THEN conjunct2, THEN conjunct2, THEN conjunct1] names by simp
  from 1 2 3 show ?thesis by blast
qed

section \<open>Properties of the diagnostic parser\<close>

lemma exec_all_member:
  "m \<in> set (exec_all re k s) \<Longrightarrow> \<exists>s' n. re s' = Some (m, n)"
proof (induction s arbitrary: k)
  case Nil
  show ?case
  proof (cases "re []")
    case None
    with Nil show ?thesis by (cases "k = 0") simp_all
  next
    case (Some a)
    obtain g n where "a = (g, n)" by (cases a)
    with Nil Some show ?thesis by (cases "k = 0") auto
  qed
next
  case (Cons c cs)
  show ?case
  proof (cases k)
    case 0
    show ?thesis
    proof (cases "re (c # cs)")
      case None
      with Cons 0 show ?thesis by simp
    next
      case (Some a)
      obtain g n where "a = (g, n)" by (cases a)
      with Cons 0 Some show ?thesis by auto
    qed
  next
    case (Suc j)
    with Cons show ?thesis by simp
  qed
qed

lemma exec_all_skip: "exec_all re (length xs) (xs @ ys) = exec_all re 0 ys"
  by (induction xs) simp_all

lemma exec_all_match_line:
  assumes "re (l @ rest) = Some (g, length l)" and "l \<noteq> []"
  shows "exec_all re 0 (l @ rest) = g # exec_all re 0 rest"
proof -
  from assms(2) obtain c cs where l: "l = c # cs" by (cases l) auto
  have "exec_all re 0 (c # (cs @ rest)) = g # exec_all re (length cs) (cs @ rest)"
    using assms(1) by (simp add: l)
  then show ?thesis by (simp add: l exec_all_skip)
qed

lemma exec_all_before:
  assumes "\<And>c cs. c \<noteq> a \<Longrightarrow> re (c # cs) = None" and "a \<notin> set before"
  shows "exec_all re 0 (before @ s) = exec_all re 0 s"
  using assms(2)
proof (induction before)
  case Nil
  show ?case by simp
next
  case (Cons c cs)
  then have "c \<noteq> a" by auto
  then have "re (c # cs @ s) = None" by (rule assms(1))
  with Cons show ?case by simp
qed

lemma takeWhile_run:
  "list_all P xs \<Longrightarrow> r = [] \<or> \<not> P (hd r) \<Longrightarrow> takeWhile P (xs @ r) = xs"
  by (cases r) (auto simp: list_all_iff takeWhile_append2)

lemma dropWhile_run:
  "list_all P xs \<Longrightarrow> r = [] \<or> \<not> P (hd r) \<Longrightarrow> dropWhile P (xs @ r) = r"
  by (cases r) (auto simp: list_all_iff dropWhile_append2)

lemma digit_is_dot: "is_digit c \<Longrightarrow> is_dot c"
  by (auto simp: is_digit_def is_dot_def is_line_terminator_def LF_def CR_def)

lemma match_diag_tail_None: "s = [] \<or> hd s \<noteq> CHR ''>'' \<Longrightarrow> match_diag_tail s = None"
  by (cases s) (auto simp: match_diag_tail_def)

lemma match_diag_tail_line:
  assumes ln: "list_all is_digit ln" and col: "list_all is_digit col"
    and sep: "sep = '': '' \<or> sep = '' ''"
    and msg: "list_all is_dot msg"
    and rest: "rest = [] \<or> is_line_terminator (hd rest)"
  shows "match_diag_tail (''>:'' @ ln @ '':'' @ col @ sep @ msg @ rest)
           = Some ((ln, col, msg), length (''>:'' @ ln @ '':'' @ col @ sep @ msg))"
proof -
  have nd: "\<not> is_digit (CHR '':'')" "\<not> is_digit (CHR '' '')"
    by (simp_all add: is_digit_def)
  have g2: "takeWhile is_digit (ln @ CHR '':'' # col @ sep @ msg @ rest) = ln"
    and r2: "dropWhile is_digit (ln @ CHR '':'' # col @ sep @ msg @ rest)
               = CHR '':'' # col @ sep @ msg @ rest"
    using ln nd by (simp_all add: takeWhile_run dropWhile_run)
  have g3: "takeWhile is_digit (col @ sep @ msg @ rest) = col"
    and r4: "dropWhile is_digit (col @ sep @ msg @ rest) = sep @ msg @ rest"
    using col nd sep by (auto simp: takeWhile_run dropWhile_run)
  have g4: "takeWhile is_dot (msg @ rest) = msg"
    using msg rest by (simp add: takeWhile_run is_dot_def)
  from sep show ?thesis
  proof
    assume "sep = '': ''"
    then show ?thesis
      using g2 r2 g3 r4 g4 by (simp add: match_diag_tail_def Let_def)
  next
    assume "sep = '' ''"
    then show ?thesis
      using g2 r2 g3 r4 g4 by (simp add: match_diag_tail_def Let_def)
  qed
qed

lemma longest_before_tail_found:
  "match_diag_tail (drop n body) = Some (g, len) \<Longrightarrow> 0 < n \<Longrightarrow> n \<le> k \<Longrightarrow>
   (\<And>j. n < j \<Longrightarrow> j \<le> k \<Longrightarrow> match_diag_tail (drop j body) = None) \<Longrightarrow>
   longest_before_tail body k = Some (n, g, len)"
proof (induction k)
  case 0
  then show ?case by simp
next
  case (Suc k)
  show ?case
  proof (cases "n = Suc k")
    case True
    with Suc.prems(1) show ?thesis by simp
  next
    case False
    with Suc.prems have "n \<le> k" by simp
    moreover have "match_diag_tail (drop (Suc k) body) = None"
      using Suc.prems(4) [of "Suc k"] False Suc.prems(3) by simp
    ultimately show ?thesis
      using Suc.IH [OF Suc.prems(1,2)] Suc.prems(4) by simp
  qed
qed

lemma no_gt_after_drop:
  assumes "CHR ''>'' \<notin> set xs" and "rest = [] \<or> hd rest \<noteq> CHR ''>''" and "i \<le> length xs"
  shows "drop i (xs @ rest) = [] \<or> hd (drop i (xs @ rest)) \<noteq> CHR ''>''"
proof (cases "i < length xs")
  case True
  then have "hd (drop i (xs @ rest)) = xs ! i"
    by (simp add: hd_append hd_drop_conv_nth)
  with True assms(1) show ?thesis by (metis nth_mem)
next
  case False
  with assms(3) have "drop i (xs @ rest) = rest" by simp
  with assms(2) show ?thesis by simp
qed

lemma digits_are_dots: "list_all is_digit ds \<Longrightarrow> list_all is_dot ds"
  unfolding list_all_iff using digit_is_dot by blast

lemma digit_not_gt: "is_digit c \<Longrightarrow> c \<noteq> CHR ''>''"
  by (auto simp: is_digit_def)

lemma digits_no_gt: "list_all is_digit ds \<Longrightarrow> CHR ''>'' \<notin> set ds"
  unfolding list_all_iff using digit_not_gt by blast

lemma punctuation_dots: "is_dot (CHR ''>'')" "is_dot (CHR '':'')" "is_dot (CHR '' '')"
  by (simp_all add: is_dot_def is_line_terminator_def LF_def CR_def)

lemma line_terminator_not_dot: "is_line_terminator c \<Longrightarrow> \<not> is_dot c"
  by (simp add: is_dot_def)

lemma line_terminator_not_gt: "is_line_terminator c \<Longrightarrow> c \<noteq> CHR ''>''"
  by (auto simp: is_line_terminator_def LF_def CR_def)

lemma diag_regex_line:
  assumes f: "f \<noteq> []" "list_all is_dot f"
    and ln: "list_all is_digit ln" and col: "list_all is_digit col"
    and sep: "sep = '': '' \<or> sep = '' ''"
    and msg: "list_all is_dot msg" "CHR ''>'' \<notin> set msg"
    and rest: "rest = [] \<or> is_line_terminator (hd rest)"
  shows "diag_regex tag (tag @ (f @ ''>:'' @ ln @ '':'' @ col @ sep @ msg) @ rest)
           = Some (\<lparr>match1 = f, match2' = ln, match3 = col, match4 = msg\<rparr>,
                   length (tag @ (f @ ''>:'' @ ln @ '':'' @ col @ sep @ msg)))"
proof -
  define T' where "T' = '':'' @ ln @ '':'' @ col @ sep @ msg"
  define T where "T = ''>:'' @ ln @ '':'' @ col @ sep @ msg"
  define body where "body = (f @ T) @ rest"
  have T: "T = CHR ''>'' # T'" by (simp add: T_def T'_def)
  have sepdots: "list_all is_dot sep" and sepgt: "CHR ''>'' \<notin> set sep"
    using sep punctuation_dots by auto
  have dots: "list_all is_dot (f @ T)"
    using f(2) digits_are_dots [OF ln] digits_are_dots [OF col] sepdots msg(1) punctuation_dots
    by (simp add: T_def)
  have tw: "takeWhile is_dot body = f @ T"
    unfolding body_def using dots rest
    by (intro takeWhile_run) (auto dest: line_terminator_not_dot)
  have nogt: "CHR ''>'' \<notin> set T'"
    using digits_no_gt [OF ln] digits_no_gt [OF col] sepgt msg(2) by (simp add: T'_def)
  have rest': "rest = [] \<or> hd rest \<noteq> CHR ''>''"
    using rest by (auto dest: line_terminator_not_gt)
  have "drop (length f) body = T @ rest"
    by (simp add: body_def)
  then have tail: "match_diag_tail (drop (length f) body) = Some ((ln, col, msg), length T)"
    using match_diag_tail_line [OF ln col sep msg(1) rest] by (simp add: T_def)
  have later: "match_diag_tail (drop j body) = None"
    if "length f < j" "j \<le> length (f @ T)" for j
  proof -
    define i where "i = j - Suc (length f)"
    have j: "j = length f + Suc i" and i: "i \<le> length T'"
      using that by (simp_all add: i_def T)
    have "drop j body = drop i (T' @ rest)"
      unfolding j T body_def by simp
    then show ?thesis
      using no_gt_after_drop [OF nogt rest' i] by (simp add: match_diag_tail_None)
  qed
  have found: "longest_before_tail body (length (f @ T)) = Some (length f, (ln, col, msg), length T)"
    using tail f(1) later by (intro longest_before_tail_found) simp_all
  have found': "longest_before_tail body (length f + length T)
                  = Some (length f, (ln, col, msg), length T)"
    using found by simp
  have tk: "take (length f) body = f"
    by (simp add: body_def)
  have "diag_regex tag (tag @ body)
          = Some (\<lparr>match1 = f, match2' = ln, match3 = col, match4 = msg\<rparr>,
                  length tag + length f + length T)"
    unfolding diag_regex_def by (simp add: tw found' tk Let_def)
  then show ?thesis
    by (simp add: body_def T_def)
qed

lemma digit_char_is_digit: "k < 10 \<Longrightarrow> is_digit (digit_char k)"
  unfolding is_digit_def digit_char_def by (rule nth_mem) simp

lemma digit_val_digit_char: "k < 10 \<Longrightarrow> digit_val (digit_char k) = int k"
proof -
  assume "k < 10"
  then have "k = 0 \<or> k = 1 \<or> k = 2 \<or> k = 3 \<or> k = 4
      \<or> k = 5 \<or> k = 6 \<or> k = 7 \<or> k = 8 \<or> k = 9"
    by presburger
  then show ?thesis
    by (elim disjE) (simp_all add: digit_val_def digit_char_def)
qed

lemma digits_value_snoc: "digits_value (ds @ [d]) = 10 * digits_value ds + digit_val d"
  by (simp add: digits_value_def)

lemma decimal_value: "digits_value (decimal n) = int n"
proof (induction n rule: decimal.induct)
  case (1 n)
  show ?case
  proof (cases "n < 10")
    case True
    then show ?thesis
      by (subst decimal.simps) (simp add: digits_value_def digit_val_digit_char)
  next
    case False
    then have "digits_value (decimal n) = 10 * int (n div 10) + int (n mod 10)"
      by (subst decimal.simps) (simp add: digits_value_snoc "1.IH" digit_val_digit_char)
    moreover have "10 * int (n div 10) + int (n mod 10) = int n"
      by presburger
    ultimately show ?thesis by simp
  qed
qed

lemma decimal_digits: "list_all is_digit (decimal n)"
proof (induction n rule: decimal.induct)
  case (1 n)
  show ?case
  proof (cases "n < 10")
    case True
    then show ?thesis
      by (subst decimal.simps) (simp add: digit_char_is_digit)
  next
    case False
    then show ?thesis
      by (subst decimal.simps) (simp add: "1.IH" digit_char_is_digit)
  qed
qed

lemma decimal_nonempty: "decimal n \<noteq> []"
  by (subst decimal.simps) simp

lemma digits_value_zeros: "digits_value (replicate z (CHR ''0'') @ ds) = digits_value ds"
  by (induction z) (simp_all add: digits_value_def digit_val_def)

lemma zero_is_digit: "is_digit (CHR ''0'')"
  by (simp add: is_digit_def)

lemma parseInt_digits:
  "ds \<noteq> [] \<Longrightarrow> list_all is_digit ds \<Longrightarrow> parseInt ds = exact (digits_value ds)"
  by (simp add: parseInt_def Let_def list_all_iff takeWhile_eq_all_conv [THEN iffD2])

lemma digits_value_1: "digits_value ''1'' = 1"
  by (simp add: digits_value_def digit_val_def)

lemma parseInt_1: "parseInt ''1'' = Num 1"
  by (simp add: parseInt_def is_digit_def digits_value_1 exact_def)

lemma parsed_column:
  assumes "col = [] \<and> c = 1 \<or> col = replicate z (CHR ''0'') @ decimal c"
    and "int c \<le> 2 ^ 53"
  shows "list_all is_digit col"
    and "js_minus (parseInt (if col = [] then ''1'' else col)) 1 = Num (int c - 1)"
proof -
  from assms(1) show "list_all is_digit col"
    using decimal_digits [of c] zero_is_digit by (auto simp: list_all_iff)
  from assms(1) show "js_minus (parseInt (if col = [] then ''1'' else col)) 1 = Num (int c - 1)"
  proof
    assume "col = [] \<and> c = 1"
    then show ?thesis by (simp add: parseInt_1 exact_def)
  next
    assume c: "col = replicate z (CHR ''0'') @ decimal c"
    then have ne: "col \<noteq> []" by (simp add: decimal_nonempty)
    have "list_all is_digit col"
      using c decimal_digits [of c] zero_is_digit by (auto simp: list_all_iff)
    then have "parseInt col = exact (int c)"
      using ne by (simp add: parseInt_digits c digits_value_zeros decimal_value)
    then show ?thesis
      using ne assms(2) by (simp add: exact_def)
  qed
qed

lemma errors_eq:
  "errors (fst (parse_compile_output txt doc)) = map error_item (exec_all errors_pattern 0 txt)"
  by (simp add: parse_compile_output_def Let_def split: prod.splits)

lemma errors_pattern_needs_bracket: "c \<noteq> CHR ''['' \<Longrightarrow> errors_pattern (c # cs) = None"
  by (simp add: errors_pattern_def diag_regex_def)

lemma column_start_error_item: "column_start (error_item m) = Num 0"
  by (simp add: error_item_def Let_def)

lemma match_diag_tail_digits:
  "match_diag_tail s = Some ((g2, g3, g4), n) \<Longrightarrow> list_all is_digit g2 \<and> list_all is_digit g3"
  by (auto simp: match_diag_tail_def Let_def list_all_iff split: if_splits dest: set_takeWhileD)

lemma longest_before_tail_tail:
  "longest_before_tail body k = Some (j, g, n) \<Longrightarrow> \<exists>s. match_diag_tail s = Some (g, n)"
  by (induction k) (auto split: option.splits)

lemma diag_regex_digits:
  "diag_regex tag s = Some (m, n) \<Longrightarrow> list_all is_digit (match2' m) \<and> list_all is_digit (match3 m)"
  by (auto simp: diag_regex_def Let_def split: if_splits option.splits
      dest!: longest_before_tail_tail match_diag_tail_digits)

lemma exact_not_NaN: "exact n \<noteq> NaN"
  by (simp add: exact_def)

lemma js_minus_not_NaN: "x \<noteq> NaN \<Longrightarrow> js_minus x k \<noteq> NaN"
  by (cases x) (simp_all add: exact_def)

lemma digit_val_nonneg: "is_digit d \<Longrightarrow> 0 \<le> digit_val d"
  by (auto simp: is_digit_def digit_val_def)

lemma digits_value_nonneg: "list_all is_digit ds \<Longrightarrow> 0 \<le> digits_value ds"
proof (induction ds rule: rev_induct)
  case Nil
  show ?case by (simp add: digits_value_def)
next
  case (snoc d ds)
  then have "0 \<le> digits_value ds" "0 \<le> digit_val d"
    by (simp_all add: digit_val_nonneg)
  then show ?case by (simp add: digits_value_snoc)
qed

lemma column_end_error_item:
  assumes "m \<in> set (exec_all errors_pattern 0 txt)"
  shows "column_end (error_item m) \<noteq> NaN"
    and "digits_value (match3 m) \<le> 2 ^ 53 \<Longrightarrow>
         column_end (error_item m)
           = Num ((if match3 m = [] then 1 else digits_value (match3 m)) - 1)"
proof -
  from assms obtain s n where "errors_pattern s = Some (m, n)"
    by (blast dest: exec_all_member)
  then have d: "list_all is_digit (match3 m)"
    by (auto simp: errors_pattern_def dest: diag_regex_digits)
  have "parseInt (if match3 m = [] then ''1'' else match3 m) \<noteq> NaN"
    using d by (simp add: parseInt_1 parseInt_digits exact_not_NaN)
  then show "column_end (error_item m) \<noteq> NaN"
    by (simp add: error_item_def Let_def js_minus_not_NaN)
  assume b: "digits_value (match3 m) \<le> 2 ^ 53"
  show "column_end (error_item m)
          = Num ((if match3 m = [] then 1 else digits_value (match3 m)) - 1)"
  proof (cases "match3 m = []")
    case True
    then show ?thesis
      by (simp add: error_item_def Let_def parseInt_1 exact_def)
  next
    case False
    have "0 \<le> digits_value (match3 m)"
      using d by (rule digits_value_nonneg)
    then show ?thesis
      using False d b by (simp add: error_item_def Let_def parseInt_digits exact_def)
  qed
qed

lemma no_errors_in_empty: "errors (fst (parse_compile_output [] doc)) = []"
  by (simp add: errors_eq errors_pattern_def diag_regex_def)

lemma warnings_loop_undefined:
  "warnings_loop None ms acc = (acc, if ms = [] then None else Some TypeError)"
  by (cases ms) (simp_all add: warning_item_def)

lemma warnings_loop_document:
  "warnings_loop (Some d) ms acc = (acc @ map (warning_entry d) ms, None)"
  by (induction ms arbitrary: acc) (simp_all add: warning_item_def)

lemma per_line_loop_undefined:
  "per_line_loop None ms = ([], map (\<lambda>m. TypeError) ms)"
  by (induction ms) (simp_all add: warning_item_def)

lemma per_line_loop_document:
  "per_line_loop (Some d) ms = (map (warning_entry d) ms, [])"
  by (induction ms) (simp_all add: warning_item_def)

text \<open>
  Claim C6 (columns of an error diagnostic). Take an output in which an error line
  \<^verbatim>\<open>[Error] <f>:ln:col: msg\<close> stands behind text without a bracket and ends its line, the
  message holding no \<^verbatim>\<open>>\<close>. The column is written in decimal, leading zeros allowed, or
  is empty and then counts as 1; it is at most \<open>2^53\<close>, the range in which the numbers of
  the program are exact. Then the first error diagnostic is that of this line: start
  column 0, end column the number written as column minus 1. Moreover, in every output the
  error diagnostics are the items of the matches of the error pattern, each with start
  column 0 and an end column that is a number, the captured column minus 1 in the exact
  range.
\<close>

theorem error_line_columns:
  assumes before: "CHR ''['' \<notin> set before"
    and f: "f \<noteq> []" "list_all is_dot f"
    and ln: "list_all is_digit ln"
    and col: "col = [] \<and> c = 1 \<or> col = replicate z (CHR ''0'') @ decimal c"
    and bound: "int c \<le> 2 ^ 53"
    and sep: "sep = '': '' \<or> sep = '' ''"
    and msg: "list_all is_dot msg" "CHR ''>'' \<notin> set msg"
    and rest: "rest = [] \<or> is_line_terminator (hd rest)"
  shows "errors (fst (parse_compile_output
            (before @ ''[Error] <'' @ f @ ''>:'' @ ln @ '':'' @ col @ sep @ msg @ rest) doc))
         = \<lparr>file' = f, line = parseInt ln, column_start = Num 0,
             column_end = Num (int c - 1), message = msg\<rparr>
           # errors (fst (parse_compile_output rest doc))
     \<and> errors (fst (parse_compile_output txt doc))
         = map error_item (exec_all errors_pattern 0 txt)
     \<and> (\<forall>m \<in> set (exec_all errors_pattern 0 txt).
           column_start (error_item m) = Num 0
         \<and> column_end (error_item m) \<noteq> NaN
         \<and> (digits_value (match3 m) \<le> 2 ^ 53 \<longrightarrow>
              column_end (error_item m)
                = Num ((if match3 m = [] then 1 else digits_value (match3 m)) - 1)))"
proof (intro conjI)
  let ?l = "''[Error] <'' @ (f @ ''>:'' @ ln @ '':'' @ col @ sep @ msg)"
  let ?m = "\<lparr>match1 = f, match2' = ln, match3 = col, match4 = msg\<rparr>"
  note pc = parsed_column [OF col bound]
  have "errors_pattern (?l @ rest) = Some (?m, length ?l)"
    unfolding errors_pattern_def
    using diag_regex_line [OF f ln pc(1) sep msg rest, of "''[Error] <''"]
    by (simp only: append_assoc)
  then have "exec_all errors_pattern 0 (?l @ rest) = ?m # exec_all errors_pattern 0 rest"
    by (rule exec_all_match_line) simp
  moreover have "exec_all errors_pattern 0 (before @ ?l @ rest)
                   = exec_all errors_pattern 0 (?l @ rest)"
    using errors_pattern_needs_bracket before by (rule exec_all_before)
  moreover have "error_item ?m = \<lparr>file' = f, line = parseInt ln, column_start = Num 0,
             column_end = Num (int c - 1), message = msg\<rparr>"
    using pc(2) by (cases "col = []") (simp_all add: error_item_def Let_def)
  ultimately show "errors (fst (parse_compile_output
            (before @ ''[Error] <'' @ f @ ''>:'' @ ln @ '':'' @ col @ sep @ msg @ rest) doc))
         = \<lparr>file' = f, line = parseInt ln, column_start = Num 0,
             column_end = Num (int c - 1), message = msg\<rparr>
           # errors (fst (parse_compile_output rest doc))"
    by (simp only: errors_eq append_assoc list.map)
next
  show "errors (fst (parse_compile_output txt doc))
         = map error_item (exec_all errors_pattern 0 txt)"
    by (rule errors_eq)
next
  show "\<forall>m \<in> set (exec_all errors_pattern 0 txt).
           column_start (error_item m) = Num 0
         \<and> column_end (error_item m) \<noteq> NaN
         \<and> (digits_value (match3 m) \<le> 2 ^ 53 \<longrightarrow>
              column_end (error_item m)
                = Num ((if match3 m = [] then 1 else digits_value (match3 m)) - 1))"
    using column_start_error_item column_end_error_item by blast
qed

theorem error_line_columns_witness:
  "errors (fst (parse_compile_output
      ''[Error] <Semantic> <my_script.ssl>:26:25: Unknown identifier qq.'' None))
     = [\<lparr>file' = ''Semantic> <my_script.ssl'', line = Num 26, column_start = Num 0,
          column_end = Num 24, message = ''Unknown identifier qq.''\<rparr>]
   \<and> errors (fst (parse_compile_output ''[Error] <Sem> <f>:10:: msg'' None))
     = [\<lparr>file' = ''Sem> <f'', line = Num 10, column_start = Num 0,
          column_end = Num 0, message = ''msg''\<rparr>]"
proof -
  have b: "CHR ''['' \<notin> set []" by simp
  have r: "[] = [] \<or> is_line_terminator (hd [])" by simp
  have s: "'': '' = '': '' \<or> '': '' = '' ''" by simp
  have f1: "''Semantic> <my_script.ssl'' \<noteq> []" "list_all is_dot ''Semantic> <my_script.ssl''"
    by code_simp+
  have l1: "list_all is_digit ''26''" by code_simp
  have c1: "''25'' = [] \<and> (25::nat) = 1 \<or> ''25'' = replicate 0 (CHR ''0'') @ decimal 25"
    by code_simp
  have b1: "int 25 \<le> 2 ^ 53" by simp
  have m1: "list_all is_dot ''Unknown identifier qq.''"
      "CHR ''>'' \<notin> set ''Unknown identifier qq.''"
    by code_simp+
  have p1: "parseInt ''26'' = Num 26" by code_simp
  have first: "errors (fst (parse_compile_output
      ''[Error] <Semantic> <my_script.ssl>:26:25: Unknown identifier qq.'' None))
     = [\<lparr>file' = ''Semantic> <my_script.ssl'', line = Num 26, column_start = Num 0,
          column_end = Num 24, message = ''Unknown identifier qq.''\<rparr>]"
    using error_line_columns [OF b f1 l1 c1 b1 s m1 r, of None, THEN conjunct1]
    by (simp add: p1 no_errors_in_empty)
  have f2: "''Sem> <f'' \<noteq> []" "list_all is_dot ''Sem> <f''"
    by code_simp+
  have l2: "list_all is_digit ''10''" by code_simp
  have c2: "[] = [] \<and> (1::nat) = 1 \<or> [] = replicate 0 (CHR ''0'') @ decimal 1"
    by simp
  have b2: "int 1 \<le> 2 ^ 53" by simp
  have m2: "list_all is_dot ''msg''" "CHR ''>'' \<notin> set ''msg''"
    by code_simp+
  have p2: "parseInt ''10'' = Num 10" by code_simp
  have second: "errors (fst (parse_compile_output ''[Error] <Sem> <f>:10:: msg'' None))
     = [\<lparr>file' = ''Sem> <f'', line = Num 10, column_start = Num 0,
          column_end = Num 0, message = ''msg''\<rparr>]"
    using error_line_columns [OF b f2 l2 c2 b2 s m2 r, of None, THEN conjunct1]
    by (simp add: p2 no_errors_in_empty)
  from first second show ?thesis by blast
qed

text \<open>
  Claim C4, as the code has it. The parser never raises, and it returns the diagnostics
  that catching at each line returns: every error diagnostic, and every warning diagnostic
  when the document is open. The one exception there can be is the \<^verbatim>\<open>TypeError\<close> of the
  warning loop when no document is open; it raises at the first warning line, is caught
  and logged once, and ends the loop. The lines behind it, each of which would raise the
  same error, are not processed and not logged.
\<close>

theorem parse_compile_output_catches_once:
  "fst (parse_compile_output txt doc) = fst (parse_per_line_spec txt doc)
   \<and> errors (fst (parse_compile_output txt doc)) = map error_item (exec_all errors_pattern 0 txt)
   \<and> warnings (fst (parse_compile_output txt doc))
       = (case doc of
            None \<Rightarrow> []
          | Some d \<Rightarrow> map (warning_entry d) (exec_all warnings_pattern 0 txt))
   \<and> snd (parse_compile_output txt doc)
       = (if doc = None \<and> exec_all warnings_pattern 0 txt \<noteq> [] then [TypeError] else [])
   \<and> snd (parse_per_line_spec txt doc)
       = (case doc of
            None \<Rightarrow> map (\<lambda>m. TypeError) (exec_all warnings_pattern 0 txt)
          | Some d \<Rightarrow> [])"
proof (cases doc)
  case None
  then show ?thesis
    by (simp add: parse_compile_output_def parse_per_line_spec_def Let_def
        warnings_loop_undefined per_line_loop_undefined)
next
  case (Some d)
  then show ?thesis
    by (simp add: parse_compile_output_def parse_per_line_spec_def Let_def
        warnings_loop_document per_line_loop_document)
qed

text \<open>
  Claim C4, as stated, fails: the \<^verbatim>\<open>try\<close> block encloses the loops, not one iteration,
  so the parser does not go on to the remaining lines. With no open document and the two
  warning lines of \<open>two_warnings\<close>, the first line raises and ends the loop with one
  exception logged; catching at each line processes the second line too and logs two.
\<close>

theorem parse_compile_output_log_counterexample:
  "parse_compile_output two_warnings None = (\<lparr>errors = [], warnings = []\<rparr>, [TypeError])
   \<and> parse_per_line_spec two_warnings None
       = (\<lparr>errors = [], warnings = []\<rparr>, [TypeError, TypeError])
   \<and> parse_compile_output two_warnings None \<noteq> parse_per_line_spec two_warnings None"
  by code_simp

section \<open>Properties of the tiered index\<close>

lemma onCompletion_with_static:
  "staticData idx langId = Some sl \<Longrightarrow>
   onCompletion idx langId relPath
     = Inr ((case selfData idx relPath of Some l \<Rightarrow> l | None \<Rightarrow> []) @ sl
            @ (case dynamicData idx langId of Some l \<Rightarrow> l | None \<Rightarrow> []))"
  by (simp add: onCompletion_def)

lemma onHover_total:
  "symbolAtPosition txt position = Inr word \<Longrightarrow>
   \<exists>r. onHover isTraRef getHover idx langId relPath txt position = Inr r"
  by (auto simp: onHover_def Let_def split: option.splits)

text \<open>
  Claim C5 (missing buckets are never an error). The hover handler guards each of its
  three buckets and returns nothing for a name it does not find. The completion handler
  guards the self and the dynamic list with \<^verbatim>\<open>|| []\<close> but not the static list: for a
  language id without a static bucket the handler raises instead of returning a list.
\<close>

theorem onCompletion_missing_static_raises:
  "onCompletion
     \<lparr>selfData = Map.empty, staticData = [''fallout-ssl'' \<mapsto> [''FOO'']], dynamicData = Map.empty\<rparr>
     ''weidu-tra'' ''dialog.tra'' = Inl TypeError"
  by (simp add: onCompletion_def)

lemma first_match_Cons:
  "first_match (x # xs) = (case x of Some h \<Rightarrow> Some h | None \<Rightarrow> first_match xs)"
  by (cases x) simp_all

text \<open>
  Claim C1 (tier precedence of the hover lookup). Once the word under the cursor is
  resolved and is not a translation reference, the handler returns the first match in the
  order self bucket of the path, static bucket of the language, dynamic bucket of the
  language.
\<close>

theorem onHover_tier_precedence:
  assumes "symbolAtPosition txt position = Inr word"
    and "word \<noteq> []"
    and "\<not> isTraRef word langId"
  shows "onHover isTraRef getHover idx langId relPath txt position
           = Inr (query_spec idx langId relPath word)"
  using assms
  by (cases "selfData idx relPath"; cases "staticData idx langId";
      cases "dynamicData idx langId")
     (auto simp: onHover_def query_spec_def bucket_get_def first_match_Cons
           split: option.splits)

theorem onHover_tier_precedence_witness:
  "onHover never_tra_ref no_tra_hover
     \<lparr>selfData = [''a.ssl'' \<mapsto> [''FOO'' \<mapsto> ''self'']],
      staticData = [''fallout-ssl'' \<mapsto> [''FOO'' \<mapsto> ''static'']],
      dynamicData = [''fallout-ssl'' \<mapsto> [''FOO'' \<mapsto> ''dynamic'']]\<rparr>
     ''fallout-ssl'' ''a.ssl'' ''call FOO;'' \<lparr>pos_line = 0, pos_character = 6\<rparr>
   = Inr (Some ''self'')
   \<and> onHover never_tra_ref no_tra_hover
     \<lparr>selfData = [''a.ssl'' \<mapsto> [''FOO'' \<mapsto> ''self'']],
      staticData = [''fallout-ssl'' \<mapsto> [''FOO'' \<mapsto> ''static'']],
      dynamicData = [''fallout-ssl'' \<mapsto> [''FOO'' \<mapsto> ''dynamic'']]\<rparr>
     ''fallout-ssl'' ''b.ssl'' ''call FOO;'' \<lparr>pos_line = 0, pos_character = 6\<rparr>
   = Inr (Some ''static'')"
proof -
  have 1: "symbolAtPosition ''call FOO;'' \<lparr>pos_line = 0, pos_character = 6\<rparr> = Inr ''FOO''"
    by code_simp
  have 2: "''FOO'' \<noteq> []"
    by simp
  have 3: "\<not> never_tra_ref ''FOO'' ''fallout-ssl''"
    by (simp add: never_tra_ref_def)
  show ?thesis
    by (simp add: onHover_tier_precedence [where isTraRef = never_tra_ref, OF 1 2 3]
          query_spec_def bucket_get_def)
qed

end
